theory Spec2Isabelle
  imports Complex_Main
begin

section \<open>Sessions with bounded undo and redo (services/session\_manager.py)\<close>

text \<open>
  The signal objects of a session (\<open>mne.io.Raw\<close>, \<open>mne.Epochs\<close>) are opaque: they are
  values of the type variables \<open>'r\<close> and \<open>'e\<close>. A \<open>.copy()\<close> of such an object is the
  same value; the in-place processing calls of the service layer replace the value.  No
  alias survives between a session and its stacks: \<open>save_state\<close>, \<open>undo\<close> and \<open>redo\<close>
  push copies, and a popped item is owned by the session alone.

  A history record is the dictionary \<open>{"operation", "params", "timestamp"}\<close>; the
  parameter dictionary is a value of \<open>'p\<close> and the ISO time stamp a value of \<open>'t\<close>
  (the clock is read by the caller and passed in).
\<close>

datatype ('p, 't) history_entry =
  HistoryEntry (operation: string) (params: 'p) (timestamp: 't)

text \<open>
  A stack entry is a 3-tuple \<open>(raw, history, epochs)\<close>; \<open>undo\<close> and \<open>redo\<close> also accept
  the older 2-tuple \<open>(raw, history)\<close>.  The history component is a record when
  \<open>save_state\<close> builds it and \<open>processing_history[-1]\<close> or \<open>None\<close> when \<open>undo\<close> or
  \<open>redo\<close> build it.
\<close>

datatype ('r, 'e, 'p, 't) stack_item =
    Item3 'r "('p, 't) history_entry option" "'e option"
  | Item2 'r "('p, 't) history_entry option"

record ('r, 'e, 'p, 't) eeg_session =
  session_id :: string
  file_path :: string
  raw :: "'r option"
  epochs :: "'e option"
  created_at :: 't
  last_accessed :: 't
  processing_history :: "('p, 't) history_entry list"
  undo_stack :: "('r, 'e, 'p, 't) stack_item list"
  redo_stack :: "('r, 'e, 'p, 't) stack_item list"

definition MAX_UNDO_STACK :: nat where
  "MAX_UNDO_STACK = 10"

definition new_session :: "string \<Rightarrow> string \<Rightarrow> 't \<Rightarrow> ('r, 'e, 'p, 't) eeg_session" where
  "new_session sid path now =
     \<lparr>session_id = sid, file_path = path, raw = None, epochs = None,
      created_at = now, last_accessed = now, processing_history = [],
      undo_stack = [], redo_stack = []\<rparr>"

definition touch :: "'t \<Rightarrow> ('r, 'e, 'p, 't) eeg_session \<Rightarrow> ('r, 'e, 'p, 't) eeg_session" where
  "touch now s = s\<lparr>last_accessed := now\<rparr>"

text \<open>\<open>processing_history[-1] if processing_history else None\<close>\<close>

definition current_history ::
  "('r, 'e, 'p, 't) eeg_session \<Rightarrow> ('p, 't) history_entry option" where
  "current_history s =
     (if processing_history s = [] then None else Some (last (processing_history s)))"

text \<open>
  \<open>save_state\<close>: nothing happens without a raw.  Otherwise the entry is appended,
  \<open>pop(0)\<close> drops the oldest entry once the stack is longer than \<open>MAX_UNDO_STACK\<close>, and
  the redo stack is cleared.
\<close>

definition save_state ::
  "string \<Rightarrow> 'p \<Rightarrow> 't \<Rightarrow> ('r, 'e, 'p, 't) eeg_session \<Rightarrow> ('r, 'e, 'p, 't) eeg_session" where
  "save_state opn ps now s =
     (case raw s of
        None \<Rightarrow> s
      | Some r \<Rightarrow>
          let pushed = undo_stack s @ [Item3 r (Some (HistoryEntry opn ps now)) (epochs s)];
              bounded = (if length pushed > MAX_UNDO_STACK then tl pushed else pushed)
          in s\<lparr>undo_stack := bounded, redo_stack := []\<rparr>)"

text \<open>Restoring a popped stack entry: the 2-tuple form clears the epochs.\<close>

fun restore_item ::
  "('r, 'e, 'p, 't) stack_item \<Rightarrow> ('r, 'e, 'p, 't) eeg_session \<Rightarrow> ('r, 'e, 'p, 't) eeg_session" where
  "restore_item (Item3 prev_raw prev_history prev_epochs) s =
     s\<lparr>epochs := prev_epochs, raw := Some prev_raw\<rparr>"
| "restore_item (Item2 prev_raw prev_history) s =
     s\<lparr>epochs := None, raw := Some prev_raw\<rparr>"

fun item_history :: "('r, 'e, 'p, 't) stack_item \<Rightarrow> ('p, 't) history_entry option" where
  "item_history (Item3 r h e) = h"
| "item_history (Item2 r h) = h"

fun item_raw :: "('r, 'e, 'p, 't) stack_item \<Rightarrow> 'r" where
  "item_raw (Item3 r h e) = r"
| "item_raw (Item2 r h) = r"

fun item_epochs :: "('r, 'e, 'p, 't) stack_item \<Rightarrow> 'e option" where
  "item_epochs (Item3 r h e) = e"
| "item_epochs (Item2 r h) = None"

text \<open>The entry that \<open>undo\<close> and \<open>redo\<close> push for the current state.\<close>

definition current_item ::
  "'r \<Rightarrow> ('r, 'e, 'p, 't) eeg_session \<Rightarrow> ('r, 'e, 'p, 't) stack_item" where
  "current_item r s = Item3 r (current_history s) (epochs s)"

definition undo :: "('r, 'e, 'p, 't) eeg_session \<Rightarrow> bool \<times> ('r, 'e, 'p, 't) eeg_session" where
  "undo s =
     (if undo_stack s = [] then (False, s)
      else
        let s1 = (case raw s of
                    None \<Rightarrow> s
                  | Some r \<Rightarrow> s\<lparr>redo_stack := redo_stack s @ [current_item r s]\<rparr>);
            stack_entry = last (undo_stack s1);
            s2 = s1\<lparr>undo_stack := butlast (undo_stack s1)\<rparr>;
            s3 = restore_item stack_entry s2;
            s4 = (if processing_history s3 \<noteq> []
                  then s3\<lparr>processing_history := butlast (processing_history s3)\<rparr>
                  else s3)
        in (True, s4))"

text \<open>
  \<open>redo\<close> appends the popped history component when it is truthy: a record (three keys)
  is, \<open>None\<close> is not.
\<close>

definition redo :: "('r, 'e, 'p, 't) eeg_session \<Rightarrow> bool \<times> ('r, 'e, 'p, 't) eeg_session" where
  "redo s =
     (if redo_stack s = [] then (False, s)
      else
        let s1 = (case raw s of
                    None \<Rightarrow> s
                  | Some r \<Rightarrow> s\<lparr>undo_stack := undo_stack s @ [current_item r s]\<rparr>);
            redo_entry = last (redo_stack s1);
            s2 = s1\<lparr>redo_stack := butlast (redo_stack s1)\<rparr>;
            s3 = restore_item redo_entry s2;
            s4 = (case item_history redo_entry of
                    Some h \<Rightarrow> s3\<lparr>processing_history := processing_history s3 @ [h]\<rparr>
                  | None \<Rightarrow> s3)
        in (True, s4))"

definition can_undo :: "('r, 'e, 'p, 't) eeg_session \<Rightarrow> bool" where
  "can_undo s = (length (undo_stack s) > 0)"

definition can_redo :: "('r, 'e, 'p, 't) eeg_session \<Rightarrow> bool" where
  "can_redo s = (length (redo_stack s) > 0)"

definition add_history ::
  "string \<Rightarrow> 'p \<Rightarrow> 't \<Rightarrow> ('r, 'e, 'p, 't) eeg_session \<Rightarrow> ('r, 'e, 'p, 't) eeg_session" where
  "add_history opn ps now s =
     s\<lparr>processing_history := processing_history s @ [HistoryEntry opn ps now]\<rparr>"


section \<open>Mutating operations of the service layer (services/eeg\_service.py)\<close>

text \<open>
  \<open>apply_filter\<close>, \<open>apply_resample\<close>, \<open>apply_rereference\<close>, \<open>apply_ica\<close>,
  \<open>create_epochs\<close> and \<open>crop_data\<close> share one shape: a missing raw raises
  \<open>ValueError\<close> before anything else; then \<open>save_state\<close>, the external processing on
  the session's signal objects, and \<open>add_history\<close>.  The external processing is opaque:
  it either finishes with new contents of raw and epochs or raises with some text, leaving
  whatever contents it had reached.
\<close>

datatype service_error = NoDataLoaded | ProcessingFailed string

datatype ('r, 'e) outcome =
    Done 'r "'e option"
  | Raised string 'r "'e option"

definition apply_operation ::
  "string \<Rightarrow> 'p \<Rightarrow> 't \<Rightarrow> ('r \<Rightarrow> 'e option \<Rightarrow> ('r, 'e) outcome) \<Rightarrow> 'p \<Rightarrow> 't \<Rightarrow>
   ('r, 'e, 'p, 't) eeg_session \<Rightarrow> service_error option \<times> ('r, 'e, 'p, 't) eeg_session" where
  "apply_operation opn saved_params t_save process logged_params t_log s =
     (case raw s of
        None \<Rightarrow> (Some NoDataLoaded, s)
      | Some r \<Rightarrow>
          let s1 = save_state opn saved_params t_save s in
          (case process r (epochs s1) of
             Raised msg r' e' \<Rightarrow>
               (Some (ProcessingFailed msg), s1\<lparr>raw := Some r', epochs := e'\<rparr>)
           | Done r' e' \<Rightarrow>
               (None, add_history opn logged_params t_log (s1\<lparr>raw := Some r', epochs := e'\<rparr>))))"

text \<open>
  \<open>apply_filter\<close> itself.  Its parameter dictionary has the keys \<open>l_freq\<close>, \<open>h_freq\<close>
  and \<open>notch_freq\<close>, here a triple.  \<open>raw.filter\<close> and \<open>raw.notch_filter\<close> are the
  external calls \<open>band\<close> and \<open>notch\<close>; each returns the raw it leaves behind and the text
  of the exception it raised, if any.
\<close>

type_synonym 'f filter_params = "'f option \<times> 'f option \<times> 'f option"

definition apply_filter ::
  "('f option \<Rightarrow> 'f option \<Rightarrow> 'r \<Rightarrow> string option \<times> 'r) \<Rightarrow> ('f \<Rightarrow> 'r \<Rightarrow> string option \<times> 'r) \<Rightarrow>
   'f option \<Rightarrow> 'f option \<Rightarrow> 'f option \<Rightarrow> 't \<Rightarrow> 't \<Rightarrow>
   ('r, 'e, 'f filter_params, 't) eeg_session \<Rightarrow>
   service_error option \<times> ('r, 'e, 'f filter_params, 't) eeg_session" where
  "apply_filter band notch l_freq h_freq notch_freq t_save t_log s =
     (case raw s of
        None \<Rightarrow> (Some NoDataLoaded, s)
      | Some r \<Rightarrow>
          let s1 = save_state ''filter'' (l_freq, h_freq, notch_freq) t_save s;
              (exc1, r1) = (if l_freq \<noteq> None \<or> h_freq \<noteq> None
                            then band l_freq h_freq r else (None, r))
          in (case exc1 of
                Some msg \<Rightarrow> (Some (ProcessingFailed msg), s1\<lparr>raw := Some r1\<rparr>)
              | None \<Rightarrow>
                  let (exc2, r2) = (case notch_freq of
                                      Some nf \<Rightarrow> notch nf r1
                                    | None \<Rightarrow> (None, r1))
                  in (case exc2 of
                        Some msg \<Rightarrow> (Some (ProcessingFailed msg), s1\<lparr>raw := Some r2\<rparr>)
                      | None \<Rightarrow>
                          (None, add_history ''filter'' (l_freq, h_freq, notch_freq) t_log
                                   (s1\<lparr>raw := Some r2\<rparr>)))))"

text \<open>
  A successful mutating operation as data: its name, the parameters and time stamp given
  to \<open>save_state\<close>, the effect of the processing on raw and epochs, and the parameters and
  time stamp given to \<open>add_history\<close>.
\<close>

record ('r, 'e, 'p, 't) mutating_op =
  op_name :: string
  op_saved_params :: 'p
  op_saved_at :: 't
  op_effect :: "'r \<Rightarrow> 'e option \<Rightarrow> 'r \<times> 'e option"
  op_logged_params :: 'p
  op_logged_at :: 't

definition run_op ::
  "('r, 'e, 'p, 't) mutating_op \<Rightarrow> ('r, 'e, 'p, 't) eeg_session \<Rightarrow> ('r, 'e, 'p, 't) eeg_session" where
  "run_op m s =
     snd (apply_operation (op_name m) (op_saved_params m) (op_saved_at m)
            (\<lambda>r e. case op_effect m r e of (r', e') \<Rightarrow> Done r' e')
            (op_logged_params m) (op_logged_at m) s)"

fun run_ops ::
  "('r, 'e, 'p, 't) mutating_op list \<Rightarrow> ('r, 'e, 'p, 't) eeg_session \<Rightarrow> ('r, 'e, 'p, 't) eeg_session" where
  "run_ops [] s = s"
| "run_ops (m # ms) s = run_ops ms (run_op m s)"

definition undo_times :: "nat \<Rightarrow> ('r, 'e, 'p, 't) eeg_session \<Rightarrow> ('r, 'e, 'p, 't) eeg_session" where
  "undo_times n s = ((\<lambda>x. snd (undo x)) ^^ n) s"

definition redo_times :: "nat \<Rightarrow> ('r, 'e, 'p, 't) eeg_session \<Rightarrow> ('r, 'e, 'p, 't) eeg_session" where
  "redo_times n s = ((\<lambda>x. snd (redo x)) ^^ n) s"

text \<open>What a caller observes of a session: raw, epochs and the history.\<close>

definition view ::
  "('r, 'e, 'p, 't) eeg_session \<Rightarrow> 'r option \<times> 'e option \<times> ('p, 't) history_entry list" where
  "view s = (raw s, epochs s, processing_history s)"

text \<open>
  Everything the application does to a session, as one action each: \<open>load_raw\<close> stores
  the raw that it has read, the service layer mutates raw and epochs in place or stores
  new epochs, and the session's own methods do the rest.
\<close>

datatype ('r, 'e, 'p, 't) action =
    StoreRaw 'r
  | MutateRaw "'r \<Rightarrow> 'r"
  | StoreEpochs 'e
  | MutateEpochs "'e \<Rightarrow> 'e"
  | SaveState string 'p 't
  | AddHistory string 'p 't
  | Undo
  | Redo
  | Touch 't

fun step ::
  "('r, 'e, 'p, 't) action \<Rightarrow> ('r, 'e, 'p, 't) eeg_session \<Rightarrow> ('r, 'e, 'p, 't) eeg_session" where
  "step (StoreRaw r) s = s\<lparr>raw := Some r\<rparr>"
| "step (MutateRaw f) s = s\<lparr>raw := map_option f (raw s)\<rparr>"
| "step (StoreEpochs e) s = s\<lparr>epochs := Some e\<rparr>"
| "step (MutateEpochs g) s = s\<lparr>epochs := map_option g (epochs s)\<rparr>"
| "step (SaveState opn ps now) s = save_state opn ps now s"
| "step (AddHistory opn ps now) s = add_history opn ps now s"
| "step Undo s = snd (undo s)"
| "step Redo s = snd (redo s)"
| "step (Touch now) s = touch now s"

fun run ::
  "('r, 'e, 'p, 't) action list \<Rightarrow> ('r, 'e, 'p, 't) eeg_session \<Rightarrow> ('r, 'e, 'p, 't) eeg_session" where
  "run [] s = s"
| "run (a # as) s = run as (step a s)"

text \<open>
  The invariant of the two stacks: they are empty while no raw is loaded, and together
  they never hold more than \<open>MAX_UNDO_STACK\<close> entries.
\<close>

definition stacks_ok :: "('r, 'e, 'p, 't) eeg_session \<Rightarrow> bool" where
  "stacks_ok s \<longleftrightarrow>
     (raw s = None \<longrightarrow> undo_stack s = [] \<and> redo_stack s = []) \<and>
     length (undo_stack s) + length (redo_stack s) \<le> MAX_UNDO_STACK"

section \<open>Batch jobs (services/batch\_processing\_service.py)\<close>

text \<open>
  \<open>BatchFileResult\<close> and \<open>BatchJobStatus\<close> (schemas.py).  The fields of a file result
  carry the prefix \<open>result_\<close>, since \<open>status\<close> and \<open>file_path\<close> name other fields already.
  Time stamps (\<open>created_at\<close>, \<open>updated_at\<close>, \<open>processing_time\<close>) are left out: they are
  read from the clock and nothing branches on them.  \<open>progress\<close> is a Python float; it is
  a real number here, which agrees with the float on the order of the values that the job
  assigns (\<open>(i + 1) / total * 100\<close> is monotone in \<open>i\<close> under rounding, and equals
  \<open>100.0\<close> at \<open>i + 1 = total\<close>).
\<close>

datatype file_state = Pending | Success | FailedFile

record batch_file_result =
  result_file_path :: string
  result_file_name :: string
  result_status :: file_state
  result_output_path :: "string option"
  result_error :: "string option"

datatype job_state = Idle | Running | Completed | Failed | Cancelled

record batch_job_status =
  job_id :: string
  status :: job_state
  total_files :: nat
  completed_files :: nat
  failed_files :: nat
  current_file :: "string option"
  current_step :: "string option"
  progress :: real
  error_message :: "string option"
  results :: "batch_file_result list"

record 'q step_config =
  step_id :: string
  step_type :: string
  enabled :: bool
  step_params :: 'q

record 'q batch_request =
  file_paths :: "string list"
  preprocessing_steps :: "'q step_config list"
  output_dir :: string
  output_format :: string
  export_epochs :: bool

text \<open>
  \<open>BatchJob\<close> holds its \<open>BatchJobStatus\<close>; here the job record extends the status record,
  so \<open>status j\<close> is \<open>job.status.status\<close>.  \<open>task\<close> is the asyncio task of the job.
  Two fields belong to the model only: \<open>delivered\<close> logs every call of a progress callback
  with the status it was given, and \<open>cancel_point\<close> says at which point of the task the
  \<open>CancelledError\<close> of \<open>task.cancel()\<close> arrives (\<open>None\<close>: never; \<open>Some 0\<close>: before
  the first statement of the task).
\<close>

datatype task_state = NoTask | TaskPending | TaskDone

record ('q, 'c) batch_job = batch_job_status +
  request :: "'q batch_request"
  task :: task_state
  cancel_event :: bool
  progress_callbacks :: "'c list"
  delivered :: "('c \<times> batch_job_status) list"
  cancel_point :: "nat option"

text \<open>
  The collaborators of a job are opaque.  Each is a function of its arguments and of the
  position of the file in the job; a call that raises returns the text of the exception
  (\<open>str(e)\<close>) on the left.  \<open>load_raw\<close> stands for \<open>eeg_service.load_raw\<close> followed by
  \<open>session_manager.get_session\<close>, which may find no session.
\<close>

record ('s, 'q) batch_world =
  path_name :: "string \<Rightarrow> string"
  load_raw :: "nat \<Rightarrow> string \<Rightarrow> string + 's option"
  execute_step :: "nat \<Rightarrow> 's \<Rightarrow> 'q step_config \<Rightarrow> string + 's"
  export_file :: "nat \<Rightarrow> 's \<Rightarrow> string \<Rightarrow> 'q batch_request \<Rightarrow> string + string"

text \<open>The text of \<open>Exception("...")\<close> raised when the session is missing, in UTF-8.\<close>

definition session_failed_message :: string where
  "session_failed_message =
     [CHR 0xE4, CHR 0xBC, CHR 0x9A, CHR 0xE8, CHR 0xAF, CHR 0x9D, CHR 0xE5, CHR 0x88, CHR 0x9B,
      CHR 0xE5, CHR 0xBB, CHR 0xBA, CHR 0xE5, CHR 0xA4, CHR 0xB1, CHR 0xE8, CHR 0xB4, CHR 0xA5]"

definition create_job ::
  "('s, 'q) batch_world \<Rightarrow> string \<Rightarrow> 'q batch_request \<Rightarrow> ('q, 'c) batch_job" where
  "create_job w jid req =
     \<lparr>job_id = jid, status = Idle, total_files = length (file_paths req),
      completed_files = 0, failed_files = 0, current_file = None, current_step = None,
      progress = 0, error_message = None,
      results = map (\<lambda>path. \<lparr>result_file_path = path, result_file_name = path_name w path,
                               result_status = Pending, result_output_path = None,
                               result_error = None\<rparr>) (file_paths req),
      request = req, task = NoTask, cancel_event = False, progress_callbacks = [],
      delivered = [], cancel_point = None\<rparr>"

definition subscribe_progress :: "'c \<Rightarrow> ('q, 'c) batch_job \<Rightarrow> ('q, 'c) batch_job" where
  "subscribe_progress callback j = j\<lparr>progress_callbacks := progress_callbacks j @ [callback]\<rparr>"

text \<open>
  \<open>start_job\<close> refuses a running job only; otherwise it creates the task, which runs
  \<open>_process_job\<close> later.
\<close>

definition start_job :: "('q, 'c) batch_job \<Rightarrow> ('q, 'c) batch_job option" where
  "start_job j = (if status j = Running then None else Some (j\<lparr>task := TaskPending\<rparr>))"

definition snapshot :: "('q, 'c) batch_job \<Rightarrow> batch_job_status" where
  "snapshot j = batch_job_status.truncate j"

text \<open>
  \<open>_notify_progress\<close> calls every callback with the status; a callback that raises is
  logged and skipped, so the job is unchanged but for the log.
\<close>

definition notify_progress :: "('q, 'c) batch_job \<Rightarrow> ('q, 'c) batch_job" where
  "notify_progress j =
     j\<lparr>delivered := delivered j @ map (\<lambda>callback. (callback, snapshot j)) (progress_callbacks j)\<rparr>"

text \<open>
  A point at which the \<open>CancelledError\<close> of \<open>task.cancel()\<close> can reach the task.
  \<open>None\<close> means that it arrives here; it is a \<open>BaseException\<close>, so neither
  \<open>except Exception\<close> of \<open>_process_job\<close> catches it, and the task ends where it stands.
  The error comes from \<open>cancel_job\<close>, which returns before \<open>task.cancel()\<close> unless the
  status is \<open>running\<close> or \<open>idle\<close>: at a point with another status the task goes on.

  The first point, before the first statement of the task, is the one where the code can be
  cancelled: \<open>cancel_point = Some 0\<close>.  The other points are the \<open>await\<close>s of
  \<open>_process_job\<close>.  What they await (\<open>_notify_progress\<close>, \<open>_execute_step\<close>,
  \<open>_export_file\<close>) contains no \<open>await\<close> itself, so a task that has begun runs to its
  end without giving \<open>cancel_job\<close> a turn; a \<open>cancel_point\<close> above 0 describes a
  scheduler that would suspend the task there, and is more than the code does.
\<close>

definition suspend :: "('q, 'c) batch_job \<Rightarrow> ('q, 'c) batch_job option" where
  "suspend j =
     (case cancel_point j of
        None \<Rightarrow> Some j
      | Some 0 \<Rightarrow>
          if status j = Running \<or> status j = Idle then None
          else Some (j\<lparr>cancel_point := None\<rparr>)
      | Some (Suc k) \<Rightarrow> Some (j\<lparr>cancel_point := Some k\<rparr>))"

definition await_notify :: "('q, 'c) batch_job \<Rightarrow> ('q, 'c) batch_job option" where
  "await_notify j = map_option notify_progress (suspend j)"

datatype 'a signal = Go 'a | Raise string | CancelledError

text \<open>The loop over \<open>preprocessing_steps\<close> of one file, with its \<open>continue\<close> and \<open>break\<close>.\<close>

fun run_steps ::
  "('s, 'q) batch_world \<Rightarrow> nat \<Rightarrow> 'q step_config list \<Rightarrow> 's \<Rightarrow> ('q, 'c) batch_job \<Rightarrow>
   's signal \<times> ('q, 'c) batch_job" where
  "run_steps w i [] session j = (Go session, j)"
| "run_steps w i (stp # rest) session j =
     (if \<not> enabled stp then run_steps w i rest session j
      else if cancel_event j then (Go session, j)
      else
        (case await_notify (j\<lparr>current_step := Some (step_type stp)\<rparr>) of
           None \<Rightarrow> (CancelledError, j\<lparr>current_step := Some (step_type stp)\<rparr>)
         | Some j1 \<Rightarrow>
             (case suspend j1 of
                None \<Rightarrow> (CancelledError, j1)
              | Some j2 \<Rightarrow>
                  (case execute_step w i session stp of
                     Inl msg \<Rightarrow> (Raise msg, j2)
                   | Inr session' \<Rightarrow> run_steps w i rest session' j2))))"

text \<open>
  The body of the inner \<open>try\<close> up to the export: how it ends, and the job it leaves.
\<close>

datatype file_end = FileExported string | FileRaised string | FileBreak | FileCancelled

definition process_file ::
  "('s, 'q) batch_world \<Rightarrow> nat \<Rightarrow> string \<Rightarrow> string \<Rightarrow> ('q, 'c) batch_job \<Rightarrow>
   file_end \<times> ('q, 'c) batch_job" where
  "process_file w i path file_name j =
     (case load_raw w i path of
        Inl msg \<Rightarrow> (FileRaised msg, j)
      | Inr None \<Rightarrow> (FileRaised session_failed_message, j)
      | Inr (Some session) \<Rightarrow>
          (case run_steps w i (preprocessing_steps (request j)) session j of
             (CancelledError, j1) \<Rightarrow> (FileCancelled, j1)
           | (Raise msg, j1) \<Rightarrow> (FileRaised msg, j1)
           | (Go session1, j1) \<Rightarrow>
               if cancel_event j1 then (FileBreak, j1)
               else
                 (case await_notify (j1\<lparr>current_step := Some ''exporting''\<rparr>) of
                    None \<Rightarrow> (FileCancelled, j1\<lparr>current_step := Some ''exporting''\<rparr>)
                  | Some j2 \<Rightarrow>
                      (case suspend j2 of
                         None \<Rightarrow> (FileCancelled, j2)
                       | Some j3 \<Rightarrow>
                           (case export_file w i session1 file_name (request j3) of
                              Inl msg \<Rightarrow> (FileRaised msg, j3)
                            | Inr output_path \<Rightarrow> (FileExported output_path, j3))))))"

text \<open>
  \<open>job.status.results[i] = ...\<close> and the counter: on success in the \<open>try\<close>, on an
  exception in its handler.  An index out of range raises \<open>IndexError\<close> in either place,
  and from the handler it leaves the loop.
\<close>

definition record_result ::
  "nat \<Rightarrow> string \<Rightarrow> string \<Rightarrow> string + string \<Rightarrow> ('q, 'c) batch_job \<Rightarrow>
   string + ('q, 'c) batch_job" where
  "record_result i path file_name outcome j =
     (if i < length (results j) then
        (case outcome of
           Inr output_path \<Rightarrow>
             Inr (j\<lparr>results := (results j)[i := \<lparr>result_file_path = path,
                      result_file_name = file_name, result_status = Success,
                      result_output_path = Some output_path, result_error = None\<rparr>],
                    completed_files := completed_files j + 1\<rparr>)
         | Inl msg \<Rightarrow>
             Inr (j\<lparr>results := (results j)[i := \<lparr>result_file_path = path,
                      result_file_name = file_name, result_status = FailedFile,
                      result_output_path = None, result_error = Some msg\<rparr>],
                    failed_files := failed_files j + 1\<rparr>))
      else Inl ''list assignment index out of range'')"

datatype loop_end = LoopDone | LoopRaised string | LoopCancelled

text \<open>The loop \<open>for i, file_path in enumerate(job.request.file_paths)\<close> from index \<open>i\<close> on.\<close>

fun process_files ::
  "('s, 'q) batch_world \<Rightarrow> nat \<Rightarrow> string list \<Rightarrow> ('q, 'c) batch_job \<Rightarrow>
   loop_end \<times> ('q, 'c) batch_job" where
  "process_files w i [] j = (LoopDone, j)"
| "process_files w i (path # rest) j =
     (if cancel_event j then (LoopDone, j\<lparr>status := Cancelled\<rparr>)
      else
        (case await_notify (j\<lparr>current_file := Some (path_name w path),
                               current_step := Some ''loading''\<rparr>) of
           None \<Rightarrow> (LoopCancelled, j\<lparr>current_file := Some (path_name w path),
                                      current_step := Some ''loading''\<rparr>)
         | Some j1 \<Rightarrow>
             (case process_file w i path (path_name w path) j1 of
                (FileCancelled, j2) \<Rightarrow> (LoopCancelled, j2)
              | (FileBreak, j2) \<Rightarrow> (LoopDone, j2)
              | (ended, j2) \<Rightarrow>
                  (case record_result i path (path_name w path)
                          (case ended of FileExported output_path \<Rightarrow> Inr output_path
                                        | FileRaised msg \<Rightarrow> Inl msg
                                        | _ \<Rightarrow> Inl []) j2 of
                     Inl msg \<Rightarrow> (LoopRaised msg, j2)
                   | Inr j3 \<Rightarrow>
                       if total_files j3 = 0 then (LoopRaised ''division by zero'', j3)
                       else
                         (case await_notify
                                 (j3\<lparr>progress := real (i + 1) / real (total_files j3) * 100\<rparr>) of
                            None \<Rightarrow> (LoopCancelled,
                                      j3\<lparr>progress := real (i + 1) / real (total_files j3) * 100\<rparr>)
                          | Some j4 \<Rightarrow> process_files w (Suc i) rest j4)))))"

datatype task_end = TaskFinished | TaskCancelled

definition process_job ::
  "('s, 'q) batch_world \<Rightarrow> ('q, 'c) batch_job \<Rightarrow> task_end \<times> ('q, 'c) batch_job" where
  "process_job w j =
     (case suspend j of
        None \<Rightarrow> (TaskCancelled, j)
      | Some j0 \<Rightarrow>
          (case await_notify (j0\<lparr>status := Running\<rparr>) of
             None \<Rightarrow> (TaskCancelled, j0\<lparr>status := Running\<rparr>)
           | Some j1 \<Rightarrow>
               (case process_files w 0 (file_paths (request j1)) j1 of
                  (LoopCancelled, j2) \<Rightarrow> (TaskCancelled, j2)
                | (LoopRaised msg, j2) \<Rightarrow>
                    (case await_notify (j2\<lparr>status := Failed, error_message := Some msg\<rparr>) of
                       None \<Rightarrow> (TaskCancelled, j2\<lparr>status := Failed, error_message := Some msg\<rparr>)
                     | Some j3 \<Rightarrow> (TaskFinished, j3\<lparr>task := TaskDone\<rparr>))
                | (LoopDone, j2) \<Rightarrow>
                    if status j2 = Running then
                      (case await_notify (j2\<lparr>status := Completed, current_file := None,
                                             current_step := None, progress := 100\<rparr>) of
                         None \<Rightarrow> (TaskCancelled, j2\<lparr>status := Completed, current_file := None,
                                                   current_step := None, progress := 100\<rparr>)
                       | Some j3 \<Rightarrow> (TaskFinished, j3\<lparr>task := TaskDone\<rparr>))
                    else (TaskFinished, j2\<lparr>task := TaskDone\<rparr>))))"

text \<open>
  \<open>cancel_job\<close> on a job that exists.  \<open>task.cancel()\<close> and \<open>await job.task\<close> end a task
  that is not done; the status is set and published after that.
\<close>

definition cancel_job :: "('q, 'c) batch_job \<Rightarrow> bool \<times> ('q, 'c) batch_job" where
  "cancel_job j =
     (if status j \<noteq> Running \<and> status j \<noteq> Idle then (False, j)
      else
        let j1 = j\<lparr>cancel_event := True\<rparr>;
            j2 = (if task j1 = TaskPending then j1\<lparr>task := TaskDone\<rparr> else j1)
        in (True, notify_progress (j2\<lparr>status := Cancelled\<rparr>)))"

text \<open>What one callback has been given, in order.\<close>

definition received :: "'c \<Rightarrow> ('q, 'c) batch_job \<Rightarrow> batch_job_status list" where
  "received callback j = map snd (filter (\<lambda>x. fst x = callback) (delivered j))"

text \<open>
  What happens to the file at position \<open>i\<close> when nothing is cancelled: the text of the
  first exception, or the path of the exported file.
\<close>

fun steps_outcome ::
  "('s, 'q) batch_world \<Rightarrow> nat \<Rightarrow> 'q step_config list \<Rightarrow> 's \<Rightarrow> string + 's" where
  "steps_outcome w i [] session = Inr session"
| "steps_outcome w i (stp # rest) session =
     (if \<not> enabled stp then steps_outcome w i rest session
      else (case execute_step w i session stp of
              Inl msg \<Rightarrow> Inl msg
            | Inr session' \<Rightarrow> steps_outcome w i rest session'))"

definition file_outcome ::
  "('s, 'q) batch_world \<Rightarrow> 'q batch_request \<Rightarrow> nat \<Rightarrow> string + string" where
  "file_outcome w req i =
     (case load_raw w i (file_paths req ! i) of
        Inl msg \<Rightarrow> Inl msg
      | Inr None \<Rightarrow> Inl session_failed_message
      | Inr (Some session) \<Rightarrow>
          (case steps_outcome w i (preprocessing_steps req) session of
             Inl msg \<Rightarrow> Inl msg
           | Inr session1 \<Rightarrow>
               export_file w i session1 (path_name w (file_paths req ! i)) req))"

definition pending_result :: "('s, 'q) batch_world \<Rightarrow> 'q batch_request \<Rightarrow> nat \<Rightarrow> batch_file_result" where
  "pending_result w req i =
     \<lparr>result_file_path = file_paths req ! i, result_file_name = path_name w (file_paths req ! i),
      result_status = Pending, result_output_path = None, result_error = None\<rparr>"

definition final_result :: "('s, 'q) batch_world \<Rightarrow> 'q batch_request \<Rightarrow> nat \<Rightarrow> batch_file_result" where
  "final_result w req i =
     (case file_outcome w req i of
        Inr output_path \<Rightarrow>
          \<lparr>result_file_path = file_paths req ! i,
           result_file_name = path_name w (file_paths req ! i),
           result_status = Success, result_output_path = Some output_path, result_error = None\<rparr>
      | Inl msg \<Rightarrow>
          \<lparr>result_file_path = file_paths req ! i,
           result_file_name = path_name w (file_paths req ! i),
           result_status = FailedFile, result_output_path = None, result_error = Some msg\<rparr>)"

text \<open>
  A job as \<open>create_job\<close> makes it, with its subscribers, started by \<open>start_job\<close>; and the
  whole life of such a job: the task runs, and where the \<open>CancelledError\<close> of a
  \<open>cancel_job\<close> reaches it, that \<open>cancel_job\<close> finishes the job.
\<close>

definition started_job ::
  "('s, 'q) batch_world \<Rightarrow> string \<Rightarrow> 'q batch_request \<Rightarrow> 'c list \<Rightarrow> nat option \<Rightarrow>
   ('q, 'c) batch_job" where
  "started_job w jid req callbacks cp =
     (foldl (\<lambda>j c. subscribe_progress c j) (create_job w jid req) callbacks)
       \<lparr>task := TaskPending, cancel_point := cp\<rparr>"

definition job_life ::
  "('s, 'q) batch_world \<Rightarrow> string \<Rightarrow> 'q batch_request \<Rightarrow> 'c list \<Rightarrow> nat option \<Rightarrow>
   ('q, 'c) batch_job" where
  "job_life w jid req callbacks cp =
     (case process_job w (started_job w jid req callbacks cp) of
        (TaskFinished, j) \<Rightarrow> j
      | (TaskCancelled, j) \<Rightarrow> snd (cancel_job j))"

text \<open>
  Another order of the same calls: \<open>cancel_job\<close> on the job while it is idle, before
  \<open>start_job\<close>, which does not refuse a cancelled job; the task then runs with the
  cancellation event set.
\<close>

definition cancelled_then_started ::
  "('s, 'q) batch_world \<Rightarrow> string \<Rightarrow> 'q batch_request \<Rightarrow> 'c list \<Rightarrow> ('q, 'c) batch_job" where
  "cancelled_then_started w jid req callbacks =
     (let j0 = foldl (\<lambda>j c. subscribe_progress c j) (create_job w jid req) callbacks;
          j1 = snd (cancel_job j0)
      in (case start_job j1 of
            None \<Rightarrow> j1
          | Some j2 \<Rightarrow> snd (process_job w j2)))"


text \<open>
  Three predicates for the proofs.  \<open>quiet j j'\<close>: from \<open>j\<close> to \<open>j'\<close> the job has only
  published its status and changed \<open>current_file\<close> and \<open>current_step\<close>.  \<open>ascending j\<close>: the progress values
  in the log ascend and do not exceed the current progress.  \<open>at_file w req cbs m j\<close>: a
  running job of request \<open>req\<close> that has finished its first \<open>m\<close> files and no other.
\<close>

definition quiet :: "('q, 'c) batch_job \<Rightarrow> ('q, 'c) batch_job \<Rightarrow> bool" where
  "quiet j j' \<longleftrightarrow>
     job_id j' = job_id j \<and> status j' = status j \<and> total_files j' = total_files j \<and>
     completed_files j' = completed_files j \<and> failed_files j' = failed_files j \<and>
     progress j' = progress j \<and>
     error_message j' = error_message j \<and> results j' = results j \<and>
     request j' = request j \<and> task j' = task j \<and> cancel_event j' = cancel_event j \<and>
     progress_callbacks j' = progress_callbacks j \<and>
     (cancel_point j = None \<longrightarrow> cancel_point j' = None) \<and>
     (\<exists>ev. delivered j' = delivered j @ ev \<and>
           (\<forall>x \<in> set ev. status (snd x) = status j \<and> progress (snd x) = progress j))"

definition ascending :: "('q, 'c) batch_job \<Rightarrow> bool" where
  "ascending j \<longleftrightarrow>
     sorted (map (\<lambda>x. progress (snd x)) (delivered j)) \<and>
     (\<forall>x \<in> set (delivered j). progress (snd x) \<le> progress j)"

definition finished_results ::
  "('s, 'q) batch_world \<Rightarrow> 'q batch_request \<Rightarrow> nat \<Rightarrow> batch_file_result list" where
  "finished_results w req m =
     map (final_result w req) [0..<m] @
     map (pending_result w req) [m..<length (file_paths req)]"

definition succeeded :: "('s, 'q) batch_world \<Rightarrow> 'q batch_request \<Rightarrow> nat \<Rightarrow> nat" where
  "succeeded w req m = length (filter (\<lambda>i. \<not> isl (file_outcome w req i)) [0..<m])"

definition failed :: "('s, 'q) batch_world \<Rightarrow> 'q batch_request \<Rightarrow> nat \<Rightarrow> nat" where
  "failed w req m = length (filter (\<lambda>i. isl (file_outcome w req i)) [0..<m])"

definition at_file ::
  "('s, 'q) batch_world \<Rightarrow> 'q batch_request \<Rightarrow> 'c list \<Rightarrow> nat \<Rightarrow> ('q, 'c) batch_job \<Rightarrow> bool" where
  "at_file w req cbs m j \<longleftrightarrow>
     request j = req \<and> progress_callbacks j = cbs \<and> cancel_event j = False \<and>
     status j = Running \<and> task j = TaskPending \<and> error_message j = None \<and>
     total_files j = length (file_paths req) \<and> m \<le> length (file_paths req) \<and>
     results j = finished_results w req m \<and>
     completed_files j = succeeded w req m \<and> failed_files j = failed w req m \<and>
     progress j = (if m = 0 then 0 else real m / real (length (file_paths req)) * 100) \<and>
     ascending j \<and> (\<forall>x \<in> set (delivered j). status (snd x) = Running)"

text \<open>\<open>settled j\<close>: the last thing given to each callback is the present status.\<close>

definition settled :: "('q, 'c) batch_job \<Rightarrow> bool" where
  "settled j \<longleftrightarrow>
     (\<exists>old. delivered j = old @ map (\<lambda>callback. (callback, snapshot j)) (progress_callbacks j))"

section \<open>Time-frequency jobs (services/tfr\_jobs.py)\<close>

text \<open>
  \<open>TFRJob\<close>, its fields with the prefix \<open>tfr_\<close>; the two time stamps are left out.
  The status is one of the four literals of \<open>TFRStatus\<close>.  The result dictionary is a
  value of \<open>'res\<close>.
\<close>

datatype tfr_state = TfrPending | TfrRunning | TfrCompleted | TfrError

record 'res tfr_job =
  tfr_job_id :: string
  tfr_status :: tfr_state
  tfr_progress :: real
  tfr_error :: "string option"
  tfr_result :: "'res option"
  tfr_cancelled :: bool

text \<open>The message of a cancelled job and the other messages of the job, in UTF-8.\<close>

definition cancel_message :: string where
  "cancel_message =
     [CHR 0xE4, CHR 0xBB, CHR 0xBB, CHR 0xE5, CHR 0x8A, CHR 0xA1, CHR 0xE5, CHR 0xB7, CHR 0xB2,
      CHR 0xE8, CHR 0xA2, CHR 0xAB, CHR 0xE7, CHR 0x94, CHR 0xA8, CHR 0xE6, CHR 0x88, CHR 0xB7,
      CHR 0xE5, CHR 0x8F, CHR 0x96, CHR 0xE6, CHR 0xB6, CHR 0x88]"

definition need_epochs_message :: string where
  "need_epochs_message =
     [CHR 0xE9, CHR 0x9C, CHR 0x80, CHR 0xE8, CHR 0xA6, CHR 0x81, CHR 0xE5, CHR 0x85, CHR 0x88,
      CHR 0xE5, CHR 0xAE, CHR 0x8C, CHR 0xE6, CHR 0x88, CHR 0x90, CHR 0xE5, CHR 0x88, CHR 0x86,
      CHR 0xE6, CHR 0xAE, CHR 0xB5, CHR 0xEF, CHR 0xBC, CHR 0x88, CHR 0x45, CHR 0x70, CHR 0x6F,
      CHR 0x63, CHR 0x68, CHR 0x69, CHR 0x6E, CHR 0x67, CHR 0xEF, CHR 0xBC, CHR 0x89, CHR 0xE6,
      CHR 0x89, CHR 0x8D, CHR 0xE8, CHR 0x83, CHR 0xBD, CHR 0xE8, CHR 0xBF, CHR 0x9B, CHR 0xE8,
      CHR 0xA1, CHR 0x8C, CHR 0xE6, CHR 0x97, CHR 0xB6, CHR 0xE9, CHR 0xA2, CHR 0x91, CHR 0xE5,
      CHR 0x88, CHR 0x86, CHR 0xE6, CHR 0x9E, CHR 0x90]"

definition no_channels_message :: string where
  "no_channels_message =
     [CHR 0xE6, CHR 0x9C, CHR 0xAA, CHR 0xE9, CHR 0x80, CHR 0x89, CHR 0xE6, CHR 0x8B, CHR 0xA9,
      CHR 0xE9, CHR 0x80, CHR 0x9A, CHR 0xE9, CHR 0x81, CHR 0x93]"

definition no_event_prefix :: string where
  "no_event_prefix =
     [CHR 0xE6, CHR 0x9C, CHR 0xAA, CHR 0xE6, CHR 0x89, CHR 0xBE, CHR 0xE5, CHR 0x88, CHR 0xB0,
      CHR 0x20, CHR 0x65, CHR 0x76, CHR 0x65, CHR 0x6E, CHR 0x74, CHR 0x5F, CHR 0x69, CHR 0x64,
      CHR 0x3D]"

definition no_event_suffix :: string where
  "no_event_suffix =
     [CHR 0x20, CHR 0xE7, CHR 0x9A, CHR 0x84, CHR 0x20, CHR 0x65, CHR 0x70, CHR 0x6F, CHR 0x63,
      CHR 0x68, CHR 0x73]"

definition no_picks_message :: string where
  "no_picks_message =
     [CHR 0xE6, CHR 0x89, CHR 0x80, CHR 0xE9, CHR 0x80, CHR 0x89, CHR 0xE9, CHR 0x80, CHR 0x9A,
      CHR 0xE9, CHR 0x81, CHR 0x93, CHR 0xE5, CHR 0x9C, CHR 0xA8, CHR 0x20, CHR 0x65, CHR 0x70,
      CHR 0x6F, CHR 0x63, CHR 0x68, CHR 0x73, CHR 0x20, CHR 0xE4, CHR 0xB8, CHR 0xAD, CHR 0xE4,
      CHR 0xB8, CHR 0x8D, CHR 0xE5, CHR 0xAD, CHR 0x98, CHR 0xE5, CHR 0x9C, CHR 0xA8]"

definition bad_frequency_message :: string where
  "bad_frequency_message =
     [CHR 0x66, CHR 0x6D, CHR 0x61, CHR 0x78, CHR 0x20, CHR 0xE5, CHR 0xBF, CHR 0x85, CHR 0xE9,
      CHR 0xA1, CHR 0xBB, CHR 0xE5, CHR 0xA4, CHR 0xA7, CHR 0xE4, CHR 0xBA, CHR 0x8E, CHR 0x20,
      CHR 0x66, CHR 0x6D, CHR 0x69, CHR 0x6E]"

definition bad_window_message :: string where
  "bad_window_message =
     [CHR 0x45, CHR 0x70, CHR 0x6F, CHR 0x63, CHR 0x68, CHR 0x20, CHR 0xE6, CHR 0x97, CHR 0xB6,
      CHR 0xE9, CHR 0x97, CHR 0xB4, CHR 0xE7, CHR 0xAA, CHR 0x97, CHR 0xE6, CHR 0x97, CHR 0xA0,
      CHR 0xE6, CHR 0x95, CHR 0x88, CHR 0xEF, CHR 0xBC, CHR 0x8C, CHR 0xE6, CHR 0x97, CHR 0xA0,
      CHR 0xE6, CHR 0xB3, CHR 0x95, CHR 0xE8, CHR 0xAE, CHR 0xA1, CHR 0xE7, CHR 0xAE, CHR 0x97,
      CHR 0x20, CHR 0x54, CHR 0x46, CHR 0x52]"

definition tfr_create_job :: "string \<Rightarrow> 'res tfr_job" where
  "tfr_create_job jid =
     \<lparr>tfr_job_id = jid, tfr_status = TfrPending, tfr_progress = 0, tfr_error = None,
      tfr_result = None, tfr_cancelled = False\<rparr>"

text \<open>\<open>TFRJobManager.cancel_job\<close> on a job that exists.\<close>

definition tfr_cancel_job :: "'res tfr_job \<Rightarrow> bool \<times> 'res tfr_job" where
  "tfr_cancel_job j =
     (if tfr_status j = TfrPending \<or> tfr_status j = TfrRunning
      then (True, j\<lparr>tfr_cancelled := True, tfr_status := TfrError,
                     tfr_error := Some cancel_message, tfr_progress := 1\<rparr>)
      else (False, j))"

text \<open>The local function \<open>_update\<close>: an argument that is \<open>None\<close> leaves its field alone.\<close>

definition tfr_update ::
  "tfr_state option \<Rightarrow> real option \<Rightarrow> string option \<Rightarrow> 'res option \<Rightarrow>
   'res tfr_job \<Rightarrow> 'res tfr_job" where
  "tfr_update new_status new_progress new_error new_result j =
     (let j1 = (case new_status of Some s \<Rightarrow> j\<lparr>tfr_status := s\<rparr> | None \<Rightarrow> j);
          j2 = (case new_progress of Some p \<Rightarrow> j1\<lparr>tfr_progress := p\<rparr> | None \<Rightarrow> j1);
          j3 = (case new_error of Some e \<Rightarrow> j2\<lparr>tfr_error := Some e\<rparr> | None \<Rightarrow> j2)
      in (case new_result of Some r \<Rightarrow> j3\<lparr>tfr_result := Some r\<rparr> | None \<Rightarrow> j3))"

text \<open>
  \<open>run_morlet_job\<close> is a synchronous function handed to \<open>BackgroundTasks\<close>, so it runs
  on a worker thread, while \<open>cancel_job\<close> runs on the event loop.  The worker is modelled
  with the job and with the one \<open>cancel_job\<close> call that may be on its way: \<open>th_cancel_in\<close>
  counts the accesses to the job that the worker still makes before that call happens
  (\<open>None\<close>: no call is on its way), and \<open>th_cancel_returned\<close> keeps what the call returned.
\<close>

record 'res tfr_thread =
  th_job :: "'res tfr_job"
  th_cancel_in :: "nat option"
  th_cancel_returned :: "bool option"

definition interleave :: "'res tfr_thread \<Rightarrow> 'res tfr_thread" where
  "interleave th =
     (case th_cancel_in th of
        None \<Rightarrow> th
      | Some 0 \<Rightarrow>
          (case tfr_cancel_job (th_job th) of
             (ok, j) \<Rightarrow> \<lparr>th_job = j, th_cancel_in = None, th_cancel_returned = Some ok\<rparr>)
      | Some (Suc k) \<Rightarrow> th\<lparr>th_cancel_in := Some k\<rparr>)"

definition update_job ::
  "tfr_state option \<Rightarrow> real option \<Rightarrow> string option \<Rightarrow> 'res option \<Rightarrow>
   'res tfr_thread \<Rightarrow> 'res tfr_thread" where
  "update_job new_status new_progress new_error new_result th =
     (let th1 = interleave th
      in th1\<lparr>th_job := tfr_update new_status new_progress new_error new_result (th_job th1)\<rparr>)"

definition read_cancelled :: "'res tfr_thread \<Rightarrow> bool \<times> 'res tfr_thread" where
  "read_cancelled th = (let th1 = interleave th in (tfr_cancelled (th_job th1), th1))"

text \<open>
  What \<open>run_morlet_job\<close> is given and what its collaborators do: the facts that its checks
  read, the text of the exception that the computation of a batch or the rendering of an
  image raises (if any), and the two result dictionaries.
\<close>

record 'res tfr_run =
  has_epochs :: bool
  channels_given :: bool
  event_id_text :: "string option"
  event_found :: bool
  picked_channels :: nat
  fmin :: real
  fmax :: real
  epoch_length :: real
  n_epochs :: nat
  batch_raises :: "nat \<Rightarrow> string option"
  average_raises :: "string option"
  image_mode :: bool
  overview_raises :: "string option"
  channel_raises :: "nat \<Rightarrow> string option"
  data_result :: 'res
  image_result :: 'res

text \<open>The checks before the computation, in the order of the source.\<close>

definition validate :: "'res tfr_run \<Rightarrow> string option" where
  "validate r =
     (if \<not> has_epochs r then Some need_epochs_message
      else if \<not> channels_given r then Some no_channels_message
      else
        (case (if event_found r then None else event_id_text r) of
           Some shown \<Rightarrow> Some (no_event_prefix @ shown @ no_event_suffix)
         | None \<Rightarrow>
             if picked_channels r = 0 then Some no_picks_message
             else if fmax r \<le> fmin r then Some bad_frequency_message
             else if epoch_length r \<le> 0 then Some bad_window_message
             else None))"

text \<open>The \<open>except Exception\<close> of \<open>run_morlet_job\<close>.\<close>

definition fail :: "string \<Rightarrow> 'res tfr_thread \<Rightarrow> 'res tfr_thread" where
  "fail msg th = update_job (Some TfrError) (Some 1) (Some msg) None th"

datatype loop_exit = Finished | Returned | Raising string

text \<open>
  The loop \<open>for start_idx in range(0, n_epochs, batch_size)\<close> over the start indices that
  are left.
\<close>

fun batches ::
  "'res tfr_run \<Rightarrow> nat \<Rightarrow> nat list \<Rightarrow> nat \<Rightarrow> 'res tfr_thread \<Rightarrow> loop_exit \<times> 'res tfr_thread" where
  "batches r batch_size [] total_epochs th = (Finished, th)"
| "batches r batch_size (start_idx # later) total_epochs th =
     (case read_cancelled th of
        (True, th1) \<Rightarrow>
          (Returned, update_job (Some TfrError) (Some 1) (Some cancel_message) None th1)
      | (False, th1) \<Rightarrow>
          (case batch_raises r start_idx of
             Some msg \<Rightarrow> (Raising msg, th1)
           | None \<Rightarrow>
               let end_idx = min (start_idx + batch_size) (n_epochs r);
                   total1 = total_epochs + (end_idx - start_idx);
                   th2 = update_job None
                           (Some (0.15 + 0.6 * (real total1 / real (max 1 (n_epochs r)))))
                           None None th1
               in batches r batch_size later total1 th2))"

text \<open>The loop \<open>for ci, ch_name in enumerate(channel_names_out)\<close> of the image mode.\<close>

fun channel_images ::
  "'res tfr_run \<Rightarrow> nat list \<Rightarrow> 'res tfr_thread \<Rightarrow> loop_exit \<times> 'res tfr_thread" where
  "channel_images r [] th = (Finished, th)"
| "channel_images r (ci # later) th =
     (case read_cancelled th of
        (True, th1) \<Rightarrow>
          (Returned, update_job (Some TfrError) (Some 1) (Some cancel_message) None th1)
      | (False, th1) \<Rightarrow>
          (case channel_raises r ci of
             Some msg \<Rightarrow> (Raising msg, th1)
           | None \<Rightarrow>
               channel_images r later
                 (update_job None
                    (Some (0.85 + 0.13 * (real (ci + 1) / real (max 1 (picked_channels r)))))
                    None None th1)))"

definition range_step_message :: string where
  "range_step_message = ''range() arg 3 must not be zero''"

definition run_morlet_job :: "'res tfr_run \<Rightarrow> 'res tfr_thread \<Rightarrow> 'res tfr_thread" where
  "run_morlet_job r th =
     (case read_cancelled th of
        (True, th0) \<Rightarrow> th0
      | (False, th0) \<Rightarrow>
          let th1 = update_job (Some TfrRunning) (Some 0.05) None None th0 in
          (case validate r of
             Some msg \<Rightarrow> fail msg th1
           | None \<Rightarrow>
               let th2 = update_job None (Some 0.15) None None th1;
                   batch_size = (if n_epochs r \<ge> 10 then 5 else n_epochs r)
               in
               if batch_size = 0 then fail range_step_message th2
               else
                 (case batches r batch_size
                         (map (\<lambda>k. k * batch_size)
                            [0..<(n_epochs r + batch_size - 1) div batch_size]) 0 th2 of
                    (Returned, th3) \<Rightarrow> th3
                  | (Raising msg, th3) \<Rightarrow> fail msg th3
                  | (Finished, th3) \<Rightarrow>
                      let th4 = update_job None (Some 0.8) None None th3 in
                      (case average_raises r of
                         Some msg \<Rightarrow> fail msg th4
                       | None \<Rightarrow>
                           if image_mode r then
                             let th5 = update_job None (Some 0.85) None None th4 in
                             (case overview_raises r of
                                Some msg \<Rightarrow> fail msg th5
                              | None \<Rightarrow>
                                  (case channel_images r [0..<picked_channels r] th5 of
                                     (Returned, th6) \<Rightarrow> th6
                                   | (Raising msg, th6) \<Rightarrow> fail msg th6
                                   | (Finished, th6) \<Rightarrow>
                                       update_job (Some TfrCompleted) (Some 1) None
                                         (Some (image_result r)) th6))
                           else
                             update_job (Some TfrCompleted) (Some 1) None
                               (Some (data_result r)) th4))))"

text \<open>
  The life of a job: created, run by the worker, with at most one \<open>cancel_job\<close> call,
  which happens before the worker's access number \<open>cancel_in\<close> or, when the worker makes
  fewer accesses, after the worker has ended.
\<close>

definition tfr_life :: "string \<Rightarrow> 'res tfr_run \<Rightarrow> nat option \<Rightarrow> 'res tfr_thread" where
  "tfr_life jid r cancel_in =
     (let th = run_morlet_job r
                 \<lparr>th_job = tfr_create_job jid, th_cancel_in = cancel_in,
                  th_cancel_returned = None\<rparr>
      in (case th_cancel_in th of
            None \<Rightarrow> th
          | Some k \<Rightarrow>
              (case tfr_cancel_job (th_job th) of
                 (ok, j) \<Rightarrow> \<lparr>th_job = j, th_cancel_in = None, th_cancel_returned = Some ok\<rparr>)))"

text \<open>
  Two predicates for the proofs.  \<open>undisturbed th\<close>: no \<open>cancel_job\<close> call is on its way
  or has happened, and the job has neither error nor result yet.  \<open>ended_well th\<close>: no
  \<open>cancel_job\<close> call has happened, and the job is \<open>completed\<close> with a result and no
  error, or in \<open>error\<close> with a message and no result.
\<close>

definition undisturbed :: "'res tfr_thread \<Rightarrow> bool" where
  "undisturbed th \<longleftrightarrow>
     th_cancel_in th = None \<and> th_cancel_returned th = None \<and>
     \<not> tfr_cancelled (th_job th) \<and> tfr_error (th_job th) = None \<and>
     tfr_result (th_job th) = None"

definition ended_well :: "'res tfr_thread \<Rightarrow> bool" where
  "ended_well th \<longleftrightarrow>
     th_cancel_in th = None \<and> th_cancel_returned th = None \<and>
     (tfr_status (th_job th) = TfrCompleted \<and> tfr_result (th_job th) \<noteq> None \<and>
        tfr_error (th_job th) = None \<or>
      tfr_status (th_job th) = TfrError \<and> tfr_error (th_job th) \<noteq> None \<and>
        tfr_result (th_job th) = None)"

section \<open>Example sessions\<close>

definition loaded_session :: "(nat, nat, string, nat) eeg_session" where
  "loaded_session =
     \<lparr>session_id = ''ab12cd34'', file_path = ''rec.fif'', raw = Some 100, epochs = None,
      created_at = 0, last_accessed = 0,
      processing_history = [HistoryEntry ''load'' ''rec.fif'' 1],
      undo_stack = [], redo_stack = []\<rparr>"

definition unloaded_session :: "(nat, nat, nat filter_params, nat) eeg_session" where
  "unloaded_session =
     \<lparr>session_id = ''ab12cd34'', file_path = ''rec.fif'', raw = None, epochs = None,
      created_at = 0, last_accessed = 0, processing_history = [],
      undo_stack = [Item3 7 None None], redo_stack = [Item3 8 None None]\<rparr>"

definition example_ops :: "(nat, nat, string, nat) mutating_op list" where
  "example_ops =
     [\<lparr>op_name = ''filter'', op_saved_params = ''l=1,h=40'', op_saved_at = 2,
       op_effect = (\<lambda>r e. (r + 1, e)), op_logged_params = ''l=1,h=40'', op_logged_at = 3\<rparr>,
      \<lparr>op_name = ''resample'', op_saved_params = ''50'', op_saved_at = 4,
       op_effect = (\<lambda>r e. (r div 2, e)), op_logged_params = ''50'', op_logged_at = 5\<rparr>]"

definition example_actions :: "(nat, nat, string, nat) action list" where
  "example_actions =
     [StoreRaw 100, AddHistory ''load'' ''rec.fif'' 1,
      SaveState ''epochs'' ''ids=[1]'' 2, StoreEpochs 5, AddHistory ''epochs'' ''ids=[1],n=9'' 3]"

definition full_session :: "(nat, nat, string, nat) eeg_session" where
  "full_session =
     \<lparr>session_id = ''ab12cd34'', file_path = ''rec.fif'', raw = Some 10, epochs = None,
      created_at = 0, last_accessed = 0,
      processing_history = [],
      undo_stack = map (\<lambda>k. Item3 k None None) [0, 1, 2, 3, 4, 5, 6, 7, 8, 9],
      redo_stack = []\<rparr>"

definition undone_session :: "(nat, nat, nat filter_params, nat) eeg_session" where
  "undone_session =
     \<lparr>session_id = ''ab12cd34'', file_path = ''rec.fif'', raw = Some 100, epochs = None,
      created_at = 0, last_accessed = 0,
      processing_history = [HistoryEntry ''load'' (None, None, None) 1],
      undo_stack = [],
      redo_stack = [Item3 101 (Some (HistoryEntry ''filter'' (Some 1, Some 40, None) 3)) None]\<rparr>"

section \<open>Example jobs\<close>

definition example_request :: "unit batch_request" where
  "example_request =
     \<lparr>file_paths = [''a.fif'', ''b.fif'', ''c.fif''],
      preprocessing_steps =
        [\<lparr>step_id = ''1'', step_type = ''filter'', enabled = True, step_params = ()\<rparr>],
      output_dir = ''out'', output_format = ''fif'', export_epochs = False\<rparr>"

definition example_world :: "string \<Rightarrow> (nat, unit) batch_world" where
  "example_world msg =
     \<lparr>path_name = (\<lambda>path. path),
      load_raw = (\<lambda>i path. if i = 1 then Inl msg else Inr (Some i)),
      execute_step = (\<lambda>i session stp. Inr session),
      export_file = (\<lambda>i session name req. Inr (output_dir req @ ''/'' @ name))\<rparr>"

definition example_tfr_run :: "string tfr_run" where
  "example_tfr_run =
     \<lparr>has_epochs = True, channels_given = True, event_id_text = None, event_found = False,
      picked_channels = 2, fmin = 8, fmax = 20, epoch_length = 1, n_epochs = 3,
      batch_raises = (\<lambda>start_idx. None), average_raises = None, image_mode = False,
      overview_raises = None, channel_raises = (\<lambda>ci. None),
      data_result = ''data'', image_result = ''image''\<rparr>"

section \<open>Undo and redo: what the operations do\<close>

lemma save_state_no_raw: "raw s = None \<Longrightarrow> save_state opn ps now s = s"
  by (simp add: save_state_def)

lemma save_state_fields:
  assumes "raw s = Some r"
  shows "raw (save_state opn ps now s) = Some r"
    and "epochs (save_state opn ps now s) = epochs s"
    and "processing_history (save_state opn ps now s) = processing_history s"
    and "redo_stack (save_state opn ps now s) = []"
  using assms by (simp_all add: save_state_def Let_def)

lemma save_state_undo_stack:
  assumes "raw s = Some r"
  shows "undo_stack (save_state opn ps now s) =
           (if MAX_UNDO_STACK \<le> length (undo_stack s) then tl (undo_stack s) else undo_stack s)
             @ [Item3 r (Some (HistoryEntry opn ps now)) (epochs s)]"
proof (cases "undo_stack s")
  case Nil
  then show ?thesis using assms by (simp add: save_state_def Let_def MAX_UNDO_STACK_def)
next
  case (Cons a list)
  then show ?thesis using assms by (auto simp add: save_state_def Let_def)
qed

lemma undo_empty: "undo_stack s = [] \<Longrightarrow> undo s = (False, s)"
  by (simp add: undo_def)

lemma undo_fields:
  assumes "undo_stack s \<noteq> []" and "raw s = Some r"
  shows "fst (undo s) = True"
    and "raw (snd (undo s)) = Some (item_raw (last (undo_stack s)))"
    and "epochs (snd (undo s)) = item_epochs (last (undo_stack s))"
    and "processing_history (snd (undo s)) = butlast (processing_history s)"
    and "undo_stack (snd (undo s)) = butlast (undo_stack s)"
    and "redo_stack (snd (undo s)) = redo_stack s @ [current_item r s]"
  using assms by (cases "last (undo_stack s)"; simp add: undo_def Let_def)+

lemma redo_empty: "redo_stack s = [] \<Longrightarrow> redo s = (False, s)"
  by (simp add: redo_def)

lemma redo_fields:
  assumes "redo_stack s \<noteq> []" and "raw s = Some r"
  shows "fst (redo s) = True"
    and "raw (snd (redo s)) = Some (item_raw (last (redo_stack s)))"
    and "epochs (snd (redo s)) = item_epochs (last (redo_stack s))"
    and "processing_history (snd (redo s)) =
           (case item_history (last (redo_stack s)) of
              Some h \<Rightarrow> processing_history s @ [h]
            | None \<Rightarrow> processing_history s)"
    and "redo_stack (snd (redo s)) = butlast (redo_stack s)"
    and "undo_stack (snd (redo s)) = undo_stack s @ [current_item r s]"
  using assms
  by (cases "last (redo_stack s)"; cases "item_history (last (redo_stack s))";
      simp add: redo_def Let_def)+


lemma run_op_fields:
  assumes "raw s = Some r"
  shows "raw (run_op m s) = Some (fst (op_effect m r (epochs s)))"
    and "epochs (run_op m s) = snd (op_effect m r (epochs s))"
    and "processing_history (run_op m s) =
           processing_history s @ [HistoryEntry (op_name m) (op_logged_params m) (op_logged_at m)]"
    and "redo_stack (run_op m s) = []"
    and "undo_stack (run_op m s) =
           (if MAX_UNDO_STACK \<le> length (undo_stack s) then tl (undo_stack s) else undo_stack s)
             @ [Item3 r (Some (HistoryEntry (op_name m) (op_saved_params m) (op_saved_at m))) (epochs s)]"
  using assms save_state_fields [OF assms] save_state_undo_stack [OF assms]
  by (simp_all add: run_op_def apply_operation_def Let_def add_history_def split: prod.splits)

lemma undo_times_Suc: "undo_times (Suc n) s = snd (undo (undo_times n s))"
  by (simp add: undo_times_def)

lemma redo_times_Suc: "redo_times (Suc n) s = redo_times n (snd (redo s))"
  by (simp only: redo_times_def funpow_Suc_right o_apply)

lemma redo_depends_on_front:
  assumes "view a = view b" and "redo_stack a = redo_stack b"
  shows "view (snd (redo a)) = view (snd (redo b)) \<and>
         redo_stack (snd (redo a)) = redo_stack (snd (redo b))"
proof (cases "redo_stack a = []")
  case True
  then show ?thesis using assms by (simp add: redo_empty)
next
  case False
  have same: "raw a = raw b" "epochs a = epochs b" "processing_history a = processing_history b"
    using assms(1) by (simp_all add: view_def)
  show ?thesis
  proof (cases "raw a")
    case None
    then have "raw b = None" using same by simp
    with None False assms(2) same show ?thesis
      by (cases "last (redo_stack b)"; cases "item_history (last (redo_stack b))";
          simp add: redo_def Let_def view_def)
  next
    case (Some r)
    then have rb: "raw b = Some r" using same by simp
    have nb: "redo_stack b \<noteq> []" using False assms(2) by simp
    show ?thesis
      using redo_fields [OF False Some] redo_fields [OF nb rb] same assms(2)
      by (simp add: view_def split: option.splits)
  qed
qed

lemma redo_times_depends_on_front:
  "view a = view b \<Longrightarrow> redo_stack a = redo_stack b \<Longrightarrow>
   view (redo_times n a) = view (redo_times n b)"
proof (induction n arbitrary: a b)
  case 0
  then show ?case by (simp add: redo_times_def)
next
  case (Suc n)
  from redo_depends_on_front [OF Suc.prems]
  show ?case unfolding redo_times_Suc by (intro Suc.IH) simp_all
qed

lemma roundtrip_general:
  "raw s = Some r \<Longrightarrow> length ms \<le> MAX_UNDO_STACK \<Longrightarrow>
   view (undo_times (length ms) (run_ops ms s)) = view s \<and>
   (\<exists>d. d \<le> length ms \<and>
        (d = 0 \<or> d + MAX_UNDO_STACK \<le> length (undo_stack s) + length ms) \<and>
        undo_stack (undo_times (length ms) (run_ops ms s)) = drop d (undo_stack s)) \<and>
   view (redo_times (length ms) (undo_times (length ms) (run_ops ms s))) = view (run_ops ms s)"
proof (induction ms arbitrary: s r)
  case Nil
  then show ?case by (auto simp add: undo_times_def redo_times_def)
next
  case (Cons m ms)
  let ?n = "length ms"
  let ?s1 = "run_op m s"
  let ?U = "undo_stack s"
  let ?x = "Item3 r (Some (HistoryEntry (op_name m) (op_saved_params m) (op_saved_at m))) (epochs s)"
  let ?ent = "HistoryEntry (op_name m) (op_logged_params m) (op_logged_at m)"
  let ?t = "undo_times ?n (run_ops ms ?s1)"
  note f1 = run_op_fields [OF Cons.prems(1), of m]
  obtain r1 where r1: "raw ?s1 = Some r1" using f1(1) by simp
  have len: "?n \<le> MAX_UNDO_STACK" and len9: "?n < MAX_UNDO_STACK" using Cons.prems(2) by simp_all
  from Cons.IH [OF r1 len]
  obtain d where v: "view ?t = view ?s1"
    and d1: "d \<le> ?n"
    and d2: "d = 0 \<or> d + MAX_UNDO_STACK \<le> length (undo_stack ?s1) + ?n"
    and du: "undo_stack ?t = drop d (undo_stack ?s1)"
    and rv: "view (redo_times ?n ?t) = view (run_ops ms ?s1)"
    by blast
  define e :: nat where "e = (if MAX_UNDO_STACK \<le> length ?U then 1 else 0)"
  have U1: "undo_stack ?s1 = drop e ?U @ [?x]"
    using f1(5) by (simp add: e_def drop_Suc)
  have eU: "e \<le> length ?U" by (simp add: e_def MAX_UNDO_STACK_def)
  have lenU1: "length (undo_stack ?s1) = length ?U - e + 1" using U1 by simp
  have dlt: "d + e \<le> length ?U"
    using d2 len9 lenU1 eU by (auto simp add: e_def MAX_UNDO_STACK_def split: if_splits)
  have tU: "undo_stack ?t = drop (d + e) ?U @ [?x]"
    using du U1 dlt by (simp add: add.commute)
  have traw: "raw ?t = Some r1" and tep: "epochs ?t = epochs ?s1"
    and thist: "processing_history ?t = processing_history s @ [?ent]"
    using v r1 f1(3) by (simp_all add: view_def)
  have tne: "undo_stack ?t \<noteq> []" using tU by simp
  note uf = undo_fields [OF tne traw]
  let ?u = "snd (undo ?t)"
  have uview: "view ?u = view s"
    using uf(2,3,4) tU thist Cons.prems(1) by (simp add: view_def)
  have uU: "undo_stack ?u = drop (d + e) ?U" using uf(5) tU by simp
  have uR: "redo_stack ?u = redo_stack ?t @ [current_item r1 ?t]" using uf(6) .
  have une: "redo_stack ?u \<noteq> []" using uR by simp
  have uraw: "raw ?u = Some r" using uview Cons.prems(1) by (simp add: view_def)
  note rf = redo_fields [OF une uraw]
  have uhist: "processing_history ?u = processing_history s" using uview by (simp add: view_def)
  have "view (snd (redo ?u)) = view ?t \<and> redo_stack (snd (redo ?u)) = redo_stack ?t"
    using rf(2,3,4,5) uR traw tep thist uhist
    by (simp add: view_def current_item_def current_history_def)
  then have "view (redo_times ?n (snd (redo ?u))) = view (redo_times ?n ?t)"
    by (intro redo_times_depends_on_front) simp_all
  then have redone: "view (redo_times (Suc ?n) ?u) = view (run_ops ms ?s1)"
    using rv by (simp add: redo_times_Suc)
  have bound: "d + e \<le> Suc ?n \<and> (d + e = 0 \<or> d + e + MAX_UNDO_STACK \<le> length ?U + Suc ?n)"
    using d1 d2 lenU1 eU by (auto simp add: e_def MAX_UNDO_STACK_def split: if_splits)
  have "undo_times (length (m # ms)) (run_ops (m # ms) s) = ?u"
    by (simp add: undo_times_Suc)
  then show ?case using uview uU redone bound by auto
qed

lemma stacks_ok_new: "stacks_ok (new_session sid path now)"
  by (simp add: stacks_ok_def new_session_def)

lemma stacks_ok_save_state: "stacks_ok s \<Longrightarrow> stacks_ok (save_state opn ps now s)"
  by (cases "raw s")
     (auto simp add: stacks_ok_def save_state_def Let_def MAX_UNDO_STACK_def)

lemma stacks_ok_undo: "stacks_ok s \<Longrightarrow> stacks_ok (snd (undo s))"
proof (cases "undo_stack s = []")
  case True
  assume "stacks_ok s"
  with True show ?thesis by (simp add: undo_empty)
next
  case False
  assume ok: "stacks_ok s"
  with False obtain r where r: "raw s = Some r" by (auto simp add: stacks_ok_def)
  show ?thesis
    using undo_fields [OF False r] ok False
    by (cases "undo_stack s" rule: rev_cases) (simp_all add: stacks_ok_def)
qed

lemma stacks_ok_redo: "stacks_ok s \<Longrightarrow> stacks_ok (snd (redo s))"
proof (cases "redo_stack s = []")
  case True
  assume "stacks_ok s"
  with True show ?thesis by (simp add: redo_empty)
next
  case False
  assume ok: "stacks_ok s"
  with False obtain r where r: "raw s = Some r" by (auto simp add: stacks_ok_def)
  show ?thesis
    using redo_fields [OF False r] ok False
    by (cases "redo_stack s" rule: rev_cases) (simp_all add: stacks_ok_def)
qed

lemma stacks_ok_step: "stacks_ok s \<Longrightarrow> stacks_ok (step a s)"
proof (cases a)
  case (SaveState opn ps now)
  assume "stacks_ok s"
  with SaveState show ?thesis by (simp add: stacks_ok_save_state)
next
  case Undo
  assume "stacks_ok s"
  with Undo show ?thesis by (simp add: stacks_ok_undo)
next
  case Redo
  assume "stacks_ok s"
  with Redo show ?thesis by (simp add: stacks_ok_redo)
qed (auto simp add: stacks_ok_def add_history_def touch_def)

lemma stacks_ok_run: "stacks_ok s \<Longrightarrow> stacks_ok (run acts s)"
  by (induction acts arbitrary: s) (simp_all add: stacks_ok_step)

lemma stacks_ok_reachable: "stacks_ok (run acts (new_session sid path now))"
  by (rule stacks_ok_run [OF stacks_ok_new])

section \<open>Undo and redo: the claims\<close>

text \<open>
  Claim C1.  Take a session with a loaded raw and any \<open>N \<le> 10\<close> successful mutating
  operations, each calling \<open>save_state\<close> before its processing and \<open>add_history\<close> after
  it.  After the operations, \<open>N\<close> undos give back the raw, the epochs and the history that
  the session had before them; \<open>N\<close> redos after those undos give the raw, the epochs and
  the history that the operations had produced.
\<close>

theorem undo_redo_roundtrip:
  assumes "raw s = Some r" and "length ms \<le> MAX_UNDO_STACK"
  shows "view (undo_times (length ms) (run_ops ms s)) = view s \<and>
         view (redo_times (length ms) (undo_times (length ms) (run_ops ms s))) =
           view (run_ops ms s)"
  using roundtrip_general [OF assms] by blast

theorem undo_redo_roundtrip_witness:
  "raw loaded_session = Some 100 \<and> length example_ops \<le> MAX_UNDO_STACK \<and>
   view (run_ops example_ops loaded_session) =
     (Some 50, None, [HistoryEntry ''load'' ''rec.fif'' 1, HistoryEntry ''filter'' ''l=1,h=40'' 3,
                      HistoryEntry ''resample'' ''50'' 5]) \<and>
   view (undo_times (length example_ops) (run_ops example_ops loaded_session)) =
     view loaded_session \<and>
   view (redo_times (length example_ops)
           (undo_times (length example_ops) (run_ops example_ops loaded_session))) =
     view (run_ops example_ops loaded_session)"
proof -
  have h1: "raw loaded_session = Some 100" by (simp add: loaded_session_def)
  have h2: "length example_ops \<le> MAX_UNDO_STACK"
    by (simp add: example_ops_def MAX_UNDO_STACK_def)
  have h3: "view (run_ops example_ops loaded_session) =
     (Some 50, None, [HistoryEntry ''load'' ''rec.fif'' 1, HistoryEntry ''filter'' ''l=1,h=40'' 3,
                      HistoryEntry ''resample'' ''50'' 5])"
    by (simp add: example_ops_def loaded_session_def run_op_def apply_operation_def
          save_state_def add_history_def view_def Let_def MAX_UNDO_STACK_def)
  show ?thesis using h1 h2 h3 undo_redo_roundtrip [OF h1 h2] by simp
qed

text \<open>
  Claim C2.  For a session in any state that the application can reach from a new session:
  with an empty undo stack \<open>undo\<close> returns \<open>False\<close> and the session as it was.  Otherwise
  the session has a raw, and \<open>undo\<close> returns \<open>True\<close>, appends the current raw, last
  history record and epochs to the redo stack, removes the last entry of the undo stack,
  takes raw and epochs from that entry (no epochs when the entry holds none), and drops the
  last history record.
\<close>

theorem undo_contract:
  "(let s = run acts (new_session sid path now) in
      (undo_stack s = [] \<longrightarrow> undo s = (False, s)) \<and>
      (undo_stack s \<noteq> [] \<longrightarrow>
         (\<exists>r. raw s = Some r \<and>
              fst (undo s) = True \<and>
              redo_stack (snd (undo s)) = redo_stack s @ [Item3 r (current_history s) (epochs s)] \<and>
              undo_stack (snd (undo s)) = butlast (undo_stack s) \<and>
              raw (snd (undo s)) = Some (item_raw (last (undo_stack s))) \<and>
              epochs (snd (undo s)) = item_epochs (last (undo_stack s)) \<and>
              processing_history (snd (undo s)) = butlast (processing_history s))))"
proof -
  let ?s = "run acts (new_session sid path now) :: ('a, 'b, 'c, 'd) eeg_session"
  have ok: "stacks_ok ?s" by (rule stacks_ok_reachable)
  have a: "undo_stack ?s = [] \<longrightarrow> undo ?s = (False, ?s)" by (simp add: undo_empty)
  have b: "undo_stack ?s \<noteq> [] \<longrightarrow>
         (\<exists>r. raw ?s = Some r \<and>
              fst (undo ?s) = True \<and>
              redo_stack (snd (undo ?s)) = redo_stack ?s @ [Item3 r (current_history ?s) (epochs ?s)] \<and>
              undo_stack (snd (undo ?s)) = butlast (undo_stack ?s) \<and>
              raw (snd (undo ?s)) = Some (item_raw (last (undo_stack ?s))) \<and>
              epochs (snd (undo ?s)) = item_epochs (last (undo_stack ?s)) \<and>
              processing_history (snd (undo ?s)) = butlast (processing_history ?s))"
  proof
    assume ne: "undo_stack ?s \<noteq> []"
    with ok obtain r where r: "raw ?s = Some r" by (auto simp add: stacks_ok_def)
    show "\<exists>r. raw ?s = Some r \<and>
              fst (undo ?s) = True \<and>
              redo_stack (snd (undo ?s)) = redo_stack ?s @ [Item3 r (current_history ?s) (epochs ?s)] \<and>
              undo_stack (snd (undo ?s)) = butlast (undo_stack ?s) \<and>
              raw (snd (undo ?s)) = Some (item_raw (last (undo_stack ?s))) \<and>
              epochs (snd (undo ?s)) = item_epochs (last (undo_stack ?s)) \<and>
              processing_history (snd (undo ?s)) = butlast (processing_history ?s)"
      using undo_fields [OF ne r] r by (simp add: current_item_def)
  qed
  show ?thesis using a b by (simp add: Let_def)
qed

lemma example_actions_run:
  "run example_actions (new_session ''ab12cd34'' ''rec.fif'' 0) =
     \<lparr>session_id = ''ab12cd34'', file_path = ''rec.fif'', raw = Some 100, epochs = Some 5,
      created_at = 0, last_accessed = 0,
      processing_history = [HistoryEntry ''load'' ''rec.fif'' 1, HistoryEntry ''epochs'' ''ids=[1],n=9'' 3],
      undo_stack = [Item3 100 (Some (HistoryEntry ''epochs'' ''ids=[1]'' 2)) None],
      redo_stack = []\<rparr>"
  by (simp add: example_actions_def new_session_def save_state_def add_history_def Let_def
        MAX_UNDO_STACK_def)

theorem undo_contract_witness:
  "undo (run [] (new_session ''ab12cd34'' ''rec.fif'' (0::nat))
          :: (nat, nat, string, nat) eeg_session) =
     (False, new_session ''ab12cd34'' ''rec.fif'' 0) \<and>
   undo_stack (run example_actions (new_session ''ab12cd34'' ''rec.fif'' 0)) \<noteq> [] \<and>
   epochs (run example_actions (new_session ''ab12cd34'' ''rec.fif'' 0)) = Some 5 \<and>
   fst (undo (run example_actions (new_session ''ab12cd34'' ''rec.fif'' 0))) = True \<and>
   raw (snd (undo (run example_actions (new_session ''ab12cd34'' ''rec.fif'' 0)))) = Some 100 \<and>
   epochs (snd (undo (run example_actions (new_session ''ab12cd34'' ''rec.fif'' 0)))) = None \<and>
   processing_history (snd (undo (run example_actions (new_session ''ab12cd34'' ''rec.fif'' 0)))) =
     [HistoryEntry ''load'' ''rec.fif'' 1] \<and>
   undo_stack (snd (undo (run example_actions (new_session ''ab12cd34'' ''rec.fif'' 0)))) = [] \<and>
   redo_stack (snd (undo (run example_actions (new_session ''ab12cd34'' ''rec.fif'' 0)))) =
     [Item3 100 (Some (HistoryEntry ''epochs'' ''ids=[1],n=9'' 3)) (Some 5)]"
proof -
  have e: "undo_stack (run [] (new_session ''ab12cd34'' ''rec.fif'' (0::nat))
             :: (nat, nat, string, nat) eeg_session) = []"
    by (simp add: new_session_def)
  have n: "undo_stack (run example_actions (new_session ''ab12cd34'' ''rec.fif'' 0)) \<noteq> []"
    by (simp add: example_actions_run)
  show ?thesis
    using e n
      undo_contract [of "[] :: (nat, nat, string, nat) action list" "''ab12cd34''" "''rec.fif''" 0]
      undo_contract [of example_actions "''ab12cd34''" "''rec.fif''" 0]
    by (simp add: Let_def example_actions_run current_history_def)
qed

text \<open>
  Claim C3.  Whatever is done to a new session, its undo stack holds at most
  \<open>MAX_UNDO_STACK = 10\<close> entries; and \<open>save_state\<close> on a session whose undo stack holds
  10 entries drops the oldest entry, appends the new one and leaves 10.
\<close>

theorem undo_stack_bounded:
  "length (undo_stack (run acts (new_session sid path now))) \<le> MAX_UNDO_STACK \<and>
   (raw s = Some r \<and> length (undo_stack s) = MAX_UNDO_STACK \<longrightarrow>
      undo_stack (save_state opn ps t s) =
        tl (undo_stack s) @ [Item3 r (Some (HistoryEntry opn ps t)) (epochs s)] \<and>
      length (undo_stack (save_state opn ps t s)) = MAX_UNDO_STACK)"
proof -
  have "stacks_ok (run acts (new_session sid path now) :: ('a, 'b, 'c, 'd) eeg_session)"
    by (rule stacks_ok_reachable)
  then have a: "length (undo_stack (run acts (new_session sid path now)
                  :: ('a, 'b, 'c, 'd) eeg_session)) \<le> MAX_UNDO_STACK"
    by (simp add: stacks_ok_def)
  have b: "raw s = Some r \<and> length (undo_stack s) = MAX_UNDO_STACK \<longrightarrow>
      undo_stack (save_state opn ps t s) =
        tl (undo_stack s) @ [Item3 r (Some (HistoryEntry opn ps t)) (epochs s)] \<and>
      length (undo_stack (save_state opn ps t s)) = MAX_UNDO_STACK"
  proof
    assume h: "raw s = Some r \<and> length (undo_stack s) = MAX_UNDO_STACK"
    then show "undo_stack (save_state opn ps t s) =
        tl (undo_stack s) @ [Item3 r (Some (HistoryEntry opn ps t)) (epochs s)] \<and>
      length (undo_stack (save_state opn ps t s)) = MAX_UNDO_STACK"
      using save_state_undo_stack [of s r opn ps t] by (simp add: MAX_UNDO_STACK_def)
  qed
  show ?thesis using a b by blast
qed

theorem undo_stack_bounded_witness:
  "raw full_session = Some 10 \<and> length (undo_stack full_session) = MAX_UNDO_STACK \<and>
   undo_stack (save_state ''crop'' ''0-5'' 9 full_session) =
     map (\<lambda>k. Item3 k None None) [1, 2, 3, 4, 5, 6, 7, 8, 9]
       @ [Item3 10 (Some (HistoryEntry ''crop'' ''0-5'' 9)) None] \<and>
   length (undo_stack (save_state ''crop'' ''0-5'' 9 full_session)) = MAX_UNDO_STACK"
proof -
  have h: "raw full_session = Some 10 \<and> length (undo_stack full_session) = MAX_UNDO_STACK"
    by (simp add: full_session_def MAX_UNDO_STACK_def)
  have c: "undo_stack (save_state ''crop'' ''0-5'' 9 full_session) =
             tl (undo_stack full_session) @ [Item3 10 (Some (HistoryEntry ''crop'' ''0-5'' 9))
                                               (epochs full_session)] \<and>
           length (undo_stack (save_state ''crop'' ''0-5'' 9 full_session)) = MAX_UNDO_STACK"
    using h undo_stack_bounded [of "[]" "''x''" "''y''" 0 full_session 10 "''crop''" "''0-5''" 9]
    by blast
  have t: "tl (undo_stack full_session) @ [Item3 10 (Some (HistoryEntry ''crop'' ''0-5'' 9))
                                               (epochs full_session)] =
           map (\<lambda>k. Item3 k None None) [1, 2, 3, 4, 5, 6, 7, 8, 9]
             @ [Item3 10 (Some (HistoryEntry ''crop'' ''0-5'' 9)) None]"
    by (simp add: full_session_def)
  show ?thesis using h c t by (simp add: MAX_UNDO_STACK_def)
qed




lemma apply_operation_clears_redo:
  assumes "raw s = Some r"
  shows "redo_stack (snd (apply_operation opn ps now process ps' now' s)) = []"
  using assms save_state_fields(4) [OF assms, of opn ps now]
  by (simp add: apply_operation_def Let_def add_history_def split: outcome.splits)

lemma apply_filter_clears_redo:
  assumes "raw s = Some r"
  shows "redo_stack (snd (apply_filter band notch l_freq h_freq notch_freq t_save t_log s)) = []"
proof -
  have c: "\<And>p. redo_stack (save_state ''filter'' p t_save s) = []"
    using assms by (simp add: save_state_fields)
  show ?thesis
    using assms
    by (simp add: apply_filter_def Let_def add_history_def c split: prod.splits option.splits)
qed

text \<open>
  Claim C4.  On a session with a loaded raw, \<open>save_state\<close> empties the redo stack, and so
  does every mutating operation that calls it (any operation of the common shape, and
  \<open>apply_filter\<close>), whether its processing succeeds or raises: \<open>can_redo\<close> is false
  afterwards.
\<close>

theorem mutating_operation_clears_redo:
  assumes "raw s = Some r" and "raw f = Some r'"
  shows "redo_stack (save_state opn ps now s) = [] \<and>
         redo_stack (snd (apply_operation opn ps now process ps' now' s)) = [] \<and>
         \<not> can_redo (snd (apply_operation opn ps now process ps' now' s)) \<and>
         redo_stack (snd (apply_filter band notch l_freq h_freq notch_freq t_save t_log f)) = [] \<and>
         \<not> can_redo (snd (apply_filter band notch l_freq h_freq notch_freq t_save t_log f))"
  using save_state_fields(4) [OF assms(1)] apply_operation_clears_redo [OF assms(1)]
    apply_filter_clears_redo [OF assms(2)]
  by (simp add: can_redo_def)

theorem mutating_operation_clears_redo_witness:
  "raw undone_session = Some 100 \<and> can_redo undone_session \<and>
   redo_stack (save_state ''resample'' (None, None, None) 4 undone_session) = [] \<and>
   \<not> can_redo (snd (apply_operation ''resample'' (None, None, None) 4
                      (\<lambda>r e. Done (r div 2) e) (None, None, None) 5 undone_session)) \<and>
   \<not> can_redo (snd (apply_filter (\<lambda>l h r. (None, r + 1)) (\<lambda>n r. (None, r + 2))
                      (Some 1) (Some 40) None 4 5 undone_session))"
proof -
  have h: "raw undone_session = Some 100" by (simp add: undone_session_def)
  have c: "can_redo undone_session" by (simp add: undone_session_def can_redo_def)
  show ?thesis
    using h c
      mutating_operation_clears_redo [OF h h, of "''resample''" "(None, None, None)" 4
        "\<lambda>r e. Done (r div 2) e" "(None, None, None)" 5
        "\<lambda>l h r. (None, r + 1)" "\<lambda>n r. (None, r + 2)" "Some 1" "Some 40" None 4 5]
    by simp
qed

text \<open>
  Claim C5, as amended.  The entry that \<open>save_state\<close> pushes holds the raw, the epochs
  and a record made on the spot from the name and the parameters of the operation about to
  run and the time of the call.
\<close>

theorem snapshot_history_component:
  assumes "raw s = Some r"
  shows "undo_stack (save_state opn ps now s) \<noteq> [] \<and>
         last (undo_stack (save_state opn ps now s)) =
           Item3 r (Some (HistoryEntry opn ps now)) (epochs s)"
  using save_state_undo_stack [OF assms, of opn ps now] by simp

theorem snapshot_history_component_witness:
  "raw loaded_session = Some 100 \<and>
   last (undo_stack (save_state ''filter'' ''l=1,h=40'' 2 loaded_session)) =
     Item3 100 (Some (HistoryEntry ''filter'' ''l=1,h=40'' 2)) None"
proof -
  have h: "raw loaded_session = Some 100" by (simp add: loaded_session_def)
  show ?thesis
    using h snapshot_history_component [OF h, of "''filter''" "''l=1,h=40''" 2]
    by (simp add: loaded_session_def)
qed

text \<open>
  Claim C5 as stated fails: the history component of the pushed entry is not the last
  history record of the session.  Here the session's last record is the one of \<open>load\<close>, and
  the entry pushed for a filter holds the record of that filter.
\<close>

theorem snapshot_history_is_not_last_entry:
  "current_history loaded_session = Some (HistoryEntry ''load'' ''rec.fif'' 1) \<and>
   item_history (last (undo_stack (save_state ''filter'' ''l=1,h=40'' 2 loaded_session))) =
     Some (HistoryEntry ''filter'' ''l=1,h=40'' 2) \<and>
   item_history (last (undo_stack (save_state ''filter'' ''l=1,h=40'' 2 loaded_session))) \<noteq>
     current_history loaded_session"
  by (simp add: loaded_session_def save_state_def current_history_def Let_def MAX_UNDO_STACK_def)

lemma apply_filter_without_raw:
  "raw s = None \<Longrightarrow>
   apply_filter band notch l_freq h_freq notch_freq t_save t_log s = (Some NoDataLoaded, s)"
  by (simp add: apply_filter_def)

text \<open>
  Claim C10.  On a session without a raw, \<open>save_state\<close> returns the session as it was: no
  entry is pushed, none is dropped, and the redo stack keeps its entries.  A mutating
  operation called on such a session (\<open>apply_filter\<close>, or any operation of the common
  shape) raises before it reaches \<open>save_state\<close> and leaves the session as it was, too.
\<close>

theorem save_state_without_raw:
  assumes "raw s = None" and "raw f = None"
  shows "save_state opn ps now s = s \<and>
         undo_stack (save_state opn ps now s) = undo_stack s \<and>
         redo_stack (save_state opn ps now s) = redo_stack s \<and>
         apply_operation opn ps now process ps' now' s = (Some NoDataLoaded, s) \<and>
         apply_filter band notch l_freq h_freq notch_freq t_save t_log f = (Some NoDataLoaded, f)"
  using assms by (simp add: save_state_def apply_operation_def apply_filter_without_raw)

theorem save_state_without_raw_witness:
  "raw unloaded_session = None \<and> redo_stack unloaded_session = [Item3 8 None None] \<and>
   save_state ''filter'' (Some 1, None, None) 3 unloaded_session = unloaded_session \<and>
   redo_stack (save_state ''filter'' (Some 1, None, None) 3 unloaded_session) =
     [Item3 8 None None] \<and>
   undo_stack (save_state ''filter'' (Some 1, None, None) 3 unloaded_session) =
     [Item3 7 None None] \<and>
   apply_filter (\<lambda>l h r. (None, r + 1)) (\<lambda>n r. (None, r + 2)) (Some 1) None None 3 4
     unloaded_session = (Some NoDataLoaded, unloaded_session)"
proof -
  have h: "raw unloaded_session = None" by (simp add: unloaded_session_def)
  have r: "redo_stack unloaded_session = [Item3 8 None None]"
    and u: "undo_stack unloaded_session = [Item3 7 None None]"
    by (simp_all add: unloaded_session_def)
  show ?thesis
    using h r u
      save_state_without_raw [OF h h, of "''filter''" "(Some 1, None, None)" 3 _ _ _
        "\<lambda>l h r. (None, r + 1)" "\<lambda>n r. (None, r + 2)" "Some 1" None None 3 4]
    by simp
qed

section \<open>Batch jobs: the run of a job\<close>

lemma snapshot_fields:
  "status (snapshot j) = status j"
  "progress (snapshot j) = progress j"
  "results (snapshot j) = results j"
  "completed_files (snapshot j) = completed_files j"
  "failed_files (snapshot j) = failed_files j"
  by (simp_all add: snapshot_def batch_job_status.truncate_def)

lemma quiet_refl: "quiet j j"
  by (simp add: quiet_def)

lemma quiet_trans: "quiet a b \<Longrightarrow> quiet b c \<Longrightarrow> quiet a c"
  unfolding quiet_def by (elim conjE exE) (simp, fastforce)

lemma quiet_current_step: "quiet j (j\<lparr>current_step := x\<rparr>)"
  by (simp add: quiet_def)

lemma quiet_notify: "quiet j (notify_progress j)"
  by (auto simp add: quiet_def notify_progress_def snapshot_fields)

lemma quiet_suspend: "suspend j = Some j' \<Longrightarrow> quiet j j'"
  by (auto simp add: suspend_def quiet_def split: option.splits nat.splits if_splits)

lemma quiet_await_notify: "await_notify j = Some j' \<Longrightarrow> quiet j j'"
  by (auto simp add: await_notify_def intro: quiet_trans quiet_suspend quiet_notify)

lemma quiet_step_notify:
  "await_notify (j\<lparr>current_step := x\<rparr>) = Some j' \<Longrightarrow> quiet j j'"
  by (blast intro: quiet_trans quiet_current_step quiet_await_notify)

lemma run_steps_quiet: "run_steps w i steps session j = (sig, j') \<Longrightarrow> quiet j j'"
proof (induction w i steps session j arbitrary: sig j' rule: run_steps.induct)
  case (1 w i session j)
  then show ?case by (simp add: quiet_refl)
next
  case (2 w i stp rest session j)
  show ?case
  proof (cases "enabled stp")
    case False
    with 2 show ?thesis by simp
  next
    case en: True
    show ?thesis
    proof (cases "cancel_event j")
      case True
      with en 2 show ?thesis by (simp add: quiet_refl)
    next
      case ce: False
      show ?thesis
      proof (cases "await_notify (j\<lparr>current_step := Some (step_type stp)\<rparr>)")
        case None
        with en ce "2.prems" show ?thesis by (auto simp add: quiet_current_step)
      next
        case (Some j1)
        then have q1: "quiet j j1" by (rule quiet_step_notify)
        show ?thesis
        proof (cases "suspend j1")
          case None
          with en ce Some "2.prems" q1 show ?thesis by auto
        next
          case s2: (Some j2)
          then have q2: "quiet j j2" using q1 quiet_suspend quiet_trans by blast
          show ?thesis
          proof (cases "execute_step w i session stp")
            case (Inl msg)
            with en ce Some s2 "2.prems" q2 show ?thesis by auto
          next
            case (Inr session')
            with en ce Some s2 "2.prems" have "run_steps w i rest session' j2 = (sig, j')"
              by simp
            from "2.IH"(2) [OF _ _ Some s2 Inr this] en ce have "quiet j2 j'" by simp
            with q2 show ?thesis by (rule quiet_trans)
          qed
        qed
      qed
    qed
  qed
qed

lemma quiet_cancel_event: "quiet j j' \<Longrightarrow> cancel_event j' = cancel_event j"
  by (simp add: quiet_def)

lemma run_steps_outcome:
  "\<not> cancel_event j \<Longrightarrow> run_steps w i steps session j = (sig, j') \<Longrightarrow>
   (case sig of
      CancelledError \<Rightarrow> True
    | Raise msg \<Rightarrow> steps_outcome w i steps session = Inl msg
    | Go session' \<Rightarrow> steps_outcome w i steps session = Inr session')"
proof (induction w i steps session j arbitrary: sig j' rule: run_steps.induct)
  case (1 w i session j)
  then show ?case by auto
next
  case (2 w i stp rest session j)
  show ?case
  proof (cases "enabled stp")
    case False
    with "2.prems" have "run_steps w i rest session j = (sig, j')" by simp
    from "2.IH"(1) [OF False "2.prems"(1) this] False show ?thesis
      by (simp split: signal.splits)
  next
    case en: True
    note ce = "2.prems"(1)
    show ?thesis
    proof (cases "await_notify (j\<lparr>current_step := Some (step_type stp)\<rparr>)")
      case None
      with en ce "2.prems" show ?thesis by (auto split: signal.splits)
    next
      case (Some j1)
      then have q1: "quiet j j1" by (rule quiet_step_notify)
      show ?thesis
      proof (cases "suspend j1")
        case None
        with en ce Some "2.prems" show ?thesis by (auto split: signal.splits)
      next
        case s2: (Some j2)
        then have q2: "quiet j j2" using q1 quiet_suspend quiet_trans by blast
        then have ce2: "\<not> cancel_event j2" using ce by (simp add: quiet_cancel_event)
        show ?thesis
        proof (cases "execute_step w i session stp")
          case (Inl msg)
          with en ce Some s2 "2.prems" show ?thesis by (auto split: signal.splits)
        next
          case (Inr session')
          with en ce Some s2 "2.prems" have r: "run_steps w i rest session' j2 = (sig, j')"
            by simp
          from "2.IH"(2) [OF _ _ Some s2 Inr ce2 r] en ce
          show ?thesis using Inr en by (simp split: signal.splits)
        qed
      qed
    qed
  qed
qed

lemma process_file_quiet:
  assumes "process_file w i path file_name j = (ended, j')"
  shows "quiet j j'"
proof (cases "load_raw w i path")
  case (Inl msg)
  with assms show ?thesis by (simp add: process_file_def quiet_refl)
next
  case (Inr found)
  show ?thesis
  proof (cases found)
    case None
    with Inr assms show ?thesis by (simp add: process_file_def quiet_refl)
  next
    case (Some session)
    obtain sig j1 where rs: "run_steps w i (preprocessing_steps (request j)) session j = (sig, j1)"
      by (cases "run_steps w i (preprocessing_steps (request j)) session j") auto
    then have q1: "quiet j j1" by (rule run_steps_quiet)
    show ?thesis
    proof (cases sig)
      case CancelledError
      with Inr Some rs assms q1 show ?thesis by (simp add: process_file_def)
    next
      case (Raise msg)
      with Inr Some rs assms q1 show ?thesis by (simp add: process_file_def)
    next
      case (Go session1)
      show ?thesis
      proof (cases "cancel_event j1")
        case True
        with Go Inr Some rs assms q1 show ?thesis by (simp add: process_file_def)
      next
        case ce: False
        show ?thesis
        proof (cases "await_notify (j1\<lparr>current_step := Some ''exporting''\<rparr>)")
          case None
          with ce Go Inr Some rs assms q1 show ?thesis
            by (auto simp add: process_file_def intro: quiet_trans quiet_current_step)
        next
          case n2: (Some j2)
          then have q2: "quiet j j2" using q1 quiet_step_notify quiet_trans by blast
          show ?thesis
          proof (cases "suspend j2")
            case None
            with n2 ce Go Inr Some rs assms q2 show ?thesis by (simp add: process_file_def)
          next
            case s3: (Some j3)
            then have q3: "quiet j j3" using q2 quiet_suspend quiet_trans by blast
            with s3 n2 ce Go Inr Some rs assms show ?thesis
              by (auto simp add: process_file_def split: sum.splits)
          qed
        qed
      qed
    qed
  qed
qed

lemma process_file_outcome:
  assumes "process_file w i (file_paths req ! i) (path_name w (file_paths req ! i)) j = (ended, j')"
    and "\<not> cancel_event j" and "request j = req"
  shows "(case ended of
            FileCancelled \<Rightarrow> True
          | FileBreak \<Rightarrow> False
          | FileRaised msg \<Rightarrow> file_outcome w req i = Inl msg
          | FileExported output_path \<Rightarrow> file_outcome w req i = Inr output_path)"
proof (cases "load_raw w i (file_paths req ! i)")
  case (Inl msg)
  with assms show ?thesis by (auto simp add: process_file_def file_outcome_def)
next
  case (Inr found)
  show ?thesis
  proof (cases found)
    case None
    with Inr assms show ?thesis by (auto simp add: process_file_def file_outcome_def)
  next
    case (Some session)
    obtain sig j1 where rs: "run_steps w i (preprocessing_steps (request j)) session j = (sig, j1)"
      by (cases "run_steps w i (preprocessing_steps (request j)) session j") auto
    then have q1: "quiet j j1" by (rule run_steps_quiet)
    then have ce1: "\<not> cancel_event j1" using assms(2) by (simp add: quiet_cancel_event)
    have rq1: "request j1 = req" using q1 assms(3) by (simp add: quiet_def)
    note so = run_steps_outcome [OF assms(2) rs]
    show ?thesis
    proof (cases sig)
      case CancelledError
      with Inr Some rs assms show ?thesis by (auto simp add: process_file_def)
    next
      case (Raise msg)
      with Inr Some rs assms so show ?thesis by (auto simp add: process_file_def file_outcome_def)
    next
      case (Go session1)
      show ?thesis
      proof (cases "await_notify (j1\<lparr>current_step := Some ''exporting''\<rparr>)")
        case None
        with ce1 Go Inr Some rs assms show ?thesis by (auto simp add: process_file_def)
      next
        case n2: (Some j2)
        then have q2: "quiet j1 j2" using quiet_step_notify by blast
        show ?thesis
        proof (cases "suspend j2")
          case None
          with n2 ce1 Go Inr Some rs assms show ?thesis by (auto simp add: process_file_def)
        next
          case s3: (Some j3)
          then have "quiet j1 j3" using q2 quiet_suspend quiet_trans by blast
          then have rq3: "request j3 = req" using rq1 by (simp add: quiet_def)
          with s3 n2 ce1 Go Inr Some rs assms so show ?thesis
            by (auto simp add: process_file_def file_outcome_def split: sum.splits)
        qed
      qed
    qed
  qed
qed

lemma quiet_current_file: "quiet j (j\<lparr>current_file := a, current_step := b\<rparr>)"
  by (simp add: quiet_def)

lemma sorted_constant: "\<forall>x \<in> set xs. f x = (c::real) \<Longrightarrow> sorted (map f xs)"
  by (induction xs) auto

lemma ascending_quiet:
  assumes "ascending j" and "quiet j j'"
  shows "ascending j'"
proof -
  from assms(2) obtain ev where d: "delivered j' = delivered j @ ev"
    and ev: "\<forall>x \<in> set ev. progress (snd x) = progress j"
    and p: "progress j' = progress j"
    by (auto simp add: quiet_def)
  have "sorted (map (\<lambda>x. progress (snd x)) ev)" using ev by (rule sorted_constant)
  then show ?thesis
    using assms(1) d ev p by (auto simp add: ascending_def sorted_append)
qed

lemma at_file_quiet:
  assumes "at_file w req cbs m j" and "quiet j j'"
  shows "at_file w req cbs m j'"
proof -
  have a: "ascending j'" using assms by (auto simp add: at_file_def intro: ascending_quiet)
  from assms(2) obtain ev where d: "delivered j' = delivered j @ ev"
    and ev: "\<forall>x \<in> set ev. status (snd x) = status j"
    by (auto simp add: quiet_def)
  have s: "\<forall>x \<in> set (delivered j'). status (snd x) = Running"
    using assms(1) d ev by (auto simp add: at_file_def)
  show ?thesis using assms a s by (simp add: at_file_def quiet_def)
qed

lemma finished_results_step:
  assumes "m < length (file_paths req)"
  shows "(finished_results w req m)[m := final_result w req m] = finished_results w req (Suc m)"
proof -
  have "[m..<length (file_paths req)] = m # [Suc m..<length (file_paths req)]"
    using assms by (simp add: upt_conv_Cons)
  then show ?thesis
    by (simp add: finished_results_def list_update_append)
qed

lemma length_finished_results: "m \<le> length (file_paths req) \<Longrightarrow>
  length (finished_results w req m) = length (file_paths req)"
  by (simp add: finished_results_def)

lemma progress_step:
  assumes "m < n"
  shows "(if m = 0 then 0 else real m / real n * 100) \<le> real (Suc m) / real n * 100"
proof -
  have "real m / real n \<le> real (Suc m) / real n"
    using assms by (simp add: divide_right_mono)
  then have "real m / real n * 100 \<le> real (Suc m) / real n * 100"
    by (rule mult_right_mono) simp
  moreover have "0 \<le> real (Suc m) / real n * 100" by simp
  ultimately show ?thesis by presburger
qed

lemma record_result_at_file:
  assumes "at_file w req cbs m j" and "m < length (file_paths req)"
    and "outcome = file_outcome w req m"
  shows "\<exists>j3. record_result m (file_paths req ! m) (path_name w (file_paths req ! m)) outcome j
                = Inr j3 \<and> total_files j3 = length (file_paths req) \<and>
              at_file w req cbs (Suc m)
                (j3\<lparr>progress := real (m + 1) / real (total_files j3) * 100\<rparr>)"
proof -
  let ?n = "length (file_paths req)"
  have len: "m < length (results j)"
    using assms(1,2) by (simp add: at_file_def length_finished_results)
  have res: "results j = finished_results w req m" using assms(1) by (simp add: at_file_def)
  have asc: "ascending j" using assms(1) by (simp add: at_file_def)
  have pr: "progress j = (if m = 0 then 0 else real m / real ?n * 100)"
    using assms(1) by (simp add: at_file_def)
  have asc': "\<And>j'. delivered j' = delivered j \<Longrightarrow>
                progress j' = real (Suc m) / real ?n * 100 \<Longrightarrow> ascending j'"
    using asc pr progress_step [OF assms(2)] by (fastforce simp add: ascending_def)
  show ?thesis
  proof (cases outcome)
    case (Inl msg)
    then have fr: "final_result w req m =
        \<lparr>result_file_path = file_paths req ! m,
         result_file_name = path_name w (file_paths req ! m),
         result_status = FailedFile, result_output_path = None, result_error = Some msg\<rparr>"
      using assms(3) by (simp add: final_result_def)
    show ?thesis
      using Inl len assms(1,2) assms(3) [symmetric] res
        finished_results_step [OF assms(2), of w] fr
      by (auto simp add: record_result_def at_file_def succeeded_def failed_def intro!: asc')
  next
    case (Inr output_path)
    then have fr: "final_result w req m =
        \<lparr>result_file_path = file_paths req ! m,
         result_file_name = path_name w (file_paths req ! m),
         result_status = Success, result_output_path = Some output_path, result_error = None\<rparr>"
      using assms(3) by (simp add: final_result_def)
    show ?thesis
      using Inr len assms(1,2) assms(3) [symmetric] res
        finished_results_step [OF assms(2), of w] fr
      by (auto simp add: record_result_def at_file_def succeeded_def failed_def intro!: asc')
  qed
qed

lemma process_files_inv:
  "at_file w req cbs m j \<Longrightarrow> rest = drop m (file_paths req) \<Longrightarrow>
   process_files w m rest j = (e, j') \<Longrightarrow>
   (e = LoopDone \<and> at_file w req cbs (length (file_paths req)) j') \<or>
   (e = LoopCancelled \<and> (\<exists>m'. at_file w req cbs m' j'))"
proof (induction rest arbitrary: m j)
  case Nil
  then have "m = length (file_paths req)" by (simp add: at_file_def)
  with Nil show ?case by simp
next
  case (Cons path rest)
  let ?n = "length (file_paths req)"
  have mn: "m < ?n" using Cons.prems(2) by (cases "m < ?n") simp_all
  have "path # rest = file_paths req ! m # drop (Suc m) (file_paths req)"
    using Cons_nth_drop_Suc [OF mn] Cons.prems(2) by simp
  then have path: "path = file_paths req ! m" and rest: "rest = drop (Suc m) (file_paths req)"
    by simp_all
  let ?name = "path_name w path"
  let ?ja = "j\<lparr>current_file := Some ?name, current_step := Some ''loading''\<rparr>"
  have ce: "\<not> cancel_event j" using Cons.prems(1) by (simp add: at_file_def)
  have a0: "at_file w req cbs m ?ja"
    using at_file_quiet [OF Cons.prems(1) quiet_current_file] .
  show ?case
  proof (cases "await_notify ?ja")
    case None
    with ce Cons.prems(3) a0 show ?thesis by auto
  next
    case (Some j1)
    then have a1: "at_file w req cbs m j1"
      using a0 quiet_await_notify at_file_quiet by blast
    have ce1: "\<not> cancel_event j1" and rq1: "request j1 = req"
      using a1 by (simp_all add: at_file_def)
    obtain ended j2 where pf: "process_file w m path ?name j1 = (ended, j2)"
      by (cases "process_file w m path ?name j1") auto
    have a2: "at_file w req cbs m j2"
      using a1 process_file_quiet [OF pf] at_file_quiet by blast
    note po = process_file_outcome [OF pf [unfolded path] ce1 rq1]
    show ?thesis
    proof (cases ended)
      case FileCancelled
      with ce Some pf Cons.prems(3) a2 show ?thesis by auto
    next
      case FileBreak
      with po show ?thesis by simp
    next
      case (FileRaised msg)
      with po have fo: "Inl msg = file_outcome w req m" by simp
      from record_result_at_file [OF a2 mn fo] path
      obtain j3 where rr: "record_result m path ?name (Inl msg) j2 = Inr j3"
        and tf: "total_files j3 = ?n"
        and a3: "at_file w req cbs (Suc m)
                   (j3\<lparr>progress := real (m + 1) / real (total_files j3) * 100\<rparr>)"
        by auto
      let ?j3p = "j3\<lparr>progress := real (m + 1) / real (total_files j3) * 100\<rparr>"
      have nz: "total_files j3 \<noteq> 0" using tf mn by (cases "file_paths req") simp_all
      show ?thesis
      proof (cases "await_notify ?j3p")
        case None
        with ce Some pf FileRaised rr nz Cons.prems(3) a3 show ?thesis by auto
      next
        case n4: (Some j4)
        then have a4: "at_file w req cbs (Suc m) j4"
          using a3 quiet_await_notify at_file_quiet by blast
        from ce Some pf FileRaised rr nz n4 Cons.prems(3)
        have "process_files w (Suc m) rest j4 = (e, j')" by simp
        from Cons.IH [OF a4 rest this] show ?thesis .
      qed
    next
      case (FileExported output_path)
      with po have fo: "Inr output_path = file_outcome w req m" by simp
      from record_result_at_file [OF a2 mn fo] path
      obtain j3 where rr: "record_result m path ?name (Inr output_path) j2 = Inr j3"
        and tf: "total_files j3 = ?n"
        and a3: "at_file w req cbs (Suc m)
                   (j3\<lparr>progress := real (m + 1) / real (total_files j3) * 100\<rparr>)"
        by auto
      let ?j3p = "j3\<lparr>progress := real (m + 1) / real (total_files j3) * 100\<rparr>"
      have nz: "total_files j3 \<noteq> 0" using tf mn by (cases "file_paths req") simp_all
      show ?thesis
      proof (cases "await_notify ?j3p")
        case None
        with ce Some pf FileExported rr nz Cons.prems(3) a3 show ?thesis by auto
      next
        case n4: (Some j4)
        then have a4: "at_file w req cbs (Suc m) j4"
          using a3 quiet_await_notify at_file_quiet by blast
        from ce Some pf FileExported rr nz n4 Cons.prems(3)
        have "process_files w (Suc m) rest j4 = (e, j')" by simp
        from Cons.IH [OF a4 rest this] show ?thesis .
      qed
    qed
  qed
qed

lemma quiet_cancel_point: "quiet j j' \<Longrightarrow> cancel_point j = None \<Longrightarrow> cancel_point j' = None"
  by (simp add: quiet_def)

lemma suspend_uncancelled: "cancel_point j = None \<Longrightarrow> suspend j = Some j"
  by (simp add: suspend_def)

lemma await_notify_uncancelled:
  "cancel_point j = None \<Longrightarrow> \<exists>j'. await_notify j = Some j' \<and> cancel_point j' = None"
  by (simp add: await_notify_def suspend_uncancelled notify_progress_def)

lemma run_steps_uncancelled:
  "cancel_point j = None \<Longrightarrow> run_steps w i steps session j = (sig, j') \<Longrightarrow>
   sig \<noteq> CancelledError"
proof (induction w i steps session j arbitrary: sig j' rule: run_steps.induct)
  case (1 w i session j)
  then show ?case by auto
next
  case (2 w i stp rest session j)
  show ?case
  proof (cases "enabled stp")
    case False
    with "2.prems" have "run_steps w i rest session j = (sig, j')" by simp
    from "2.IH"(1) [OF False "2.prems"(1) this] show ?thesis .
  next
    case en: True
    show ?thesis
    proof (cases "cancel_event j")
      case True
      with en "2.prems" show ?thesis by auto
    next
      case ce: False
      let ?ja = "j\<lparr>current_step := Some (step_type stp)\<rparr>"
      have "cancel_point ?ja = None" using "2.prems"(1) by simp
      then obtain j1 where n1: "await_notify ?ja = Some j1"
        using await_notify_uncancelled by blast
      then have q1: "quiet j j1" by (rule quiet_step_notify)
      then have c1: "cancel_point j1 = None" using "2.prems"(1) by (rule quiet_cancel_point)
      then have s2: "suspend j1 = Some j1" by (rule suspend_uncancelled)
      show ?thesis
      proof (cases "execute_step w i session stp")
        case (Inl msg)
        with en ce n1 s2 "2.prems" show ?thesis by auto
      next
        case (Inr session')
        with en ce n1 s2 "2.prems" have r: "run_steps w i rest session' j1 = (sig, j')"
          by simp
        from "2.IH"(2) [OF _ ce n1 s2 Inr c1 r] en show ?thesis by simp
      qed
    qed
  qed
qed

lemma process_file_uncancelled:
  assumes "cancel_point j = None" and "process_file w i path file_name j = (ended, j')"
  shows "ended \<noteq> FileCancelled"
proof (cases "load_raw w i path")
  case (Inl msg)
  with assms show ?thesis by (auto simp add: process_file_def)
next
  case (Inr found)
  show ?thesis
  proof (cases found)
    case None
    with Inr assms show ?thesis by (auto simp add: process_file_def)
  next
    case (Some session)
    obtain sig j1 where rs: "run_steps w i (preprocessing_steps (request j)) session j = (sig, j1)"
      by (cases "run_steps w i (preprocessing_steps (request j)) session j") auto
    then have q1: "quiet j j1" by (rule run_steps_quiet)
    then have c1: "cancel_point j1 = None" using assms(1) by (rule quiet_cancel_point)
    note nc = run_steps_uncancelled [OF assms(1) rs]
    show ?thesis
    proof (cases sig)
      case CancelledError
      with nc show ?thesis by simp
    next
      case (Raise msg)
      with Inr Some rs assms show ?thesis by (auto simp add: process_file_def)
    next
      case (Go session1)
      let ?ja = "j1\<lparr>current_step := Some ''exporting''\<rparr>"
      have "cancel_point ?ja = None" using c1 by simp
      then obtain j2 where n2: "await_notify ?ja = Some j2"
        using await_notify_uncancelled by blast
      then have "quiet j1 j2" by (rule quiet_step_notify)
      then have "cancel_point j2 = None" using c1 by (rule quiet_cancel_point)
      then have s3: "suspend j2 = Some j2" by (rule suspend_uncancelled)
      with n2 Go Inr Some rs assms show ?thesis
        by (auto simp add: process_file_def split: sum.splits if_splits)
    qed
  qed
qed

lemma record_result_cancel_point:
  "record_result i path file_name outcome j = Inr j' \<Longrightarrow> cancel_point j' = cancel_point j"
  by (auto simp add: record_result_def split: if_splits sum.splits)

lemma process_files_uncancelled:
  "cancel_point j = None \<Longrightarrow> process_files w m rest j = (e, j') \<Longrightarrow> e \<noteq> LoopCancelled"
proof (induction rest arbitrary: m j)
  case Nil
  then show ?case by auto
next
  case (Cons path rest)
  show ?case
  proof (cases "cancel_event j")
    case True
    with Cons.prems show ?thesis by auto
  next
    case ce: False
    let ?name = "path_name w path"
    let ?ja = "j\<lparr>current_file := Some ?name, current_step := Some ''loading''\<rparr>"
    have "cancel_point ?ja = None" using Cons.prems(1) by simp
    then obtain j1 where n1: "await_notify ?ja = Some j1" and c1: "cancel_point j1 = None"
      using await_notify_uncancelled by blast
    obtain ended j2 where pf: "process_file w m path ?name j1 = (ended, j2)"
      by (cases "process_file w m path ?name j1") auto
    have c2: "cancel_point j2 = None"
      using process_file_quiet [OF pf] c1 by (rule quiet_cancel_point)
    note nc = process_file_uncancelled [OF c1 pf]
    let ?out = "case ended of FileExported output_path \<Rightarrow> Inr output_path
                  | FileRaised msg \<Rightarrow> Inl msg | _ \<Rightarrow> Inl []"
    show ?thesis
    proof (cases "ended = FileBreak")
      case True
      with ce n1 pf Cons.prems show ?thesis by auto
    next
      case nb: False
      show ?thesis
      proof (cases "record_result m path ?name ?out j2")
        case (Inl msg)
        with ce n1 pf nb nc Cons.prems(2) show ?thesis
          by (cases ended) auto
      next
        case (Inr j3)
        then have c3: "cancel_point j3 = None" using c2 record_result_cancel_point by fastforce
        let ?j3p = "j3\<lparr>progress := real (m + 1) / real (total_files j3) * 100\<rparr>"
        show ?thesis
        proof (cases "total_files j3 = 0")
          case True
          with Inr ce n1 pf nb nc Cons.prems(2) show ?thesis by (cases ended) auto
        next
          case nz: False
          have "cancel_point ?j3p = None" using c3 by simp
          then obtain j4 where n4: "await_notify ?j3p = Some j4" and c4: "cancel_point j4 = None"
            using await_notify_uncancelled by blast
          from Inr ce n1 pf nb nc nz n4 Cons.prems(2)
          have "process_files w (Suc m) rest j4 = (e, j')" by (cases ended) auto
          from Cons.IH [OF c4 this] show ?thesis .
        qed
      qed
    qed
  qed
qed

lemma subscribed:
  "foldl (\<lambda>j c. subscribe_progress c j) j cbs = j\<lparr>progress_callbacks := progress_callbacks j @ cbs\<rparr>"
  by (induction cbs arbitrary: j) (simp_all add: subscribe_progress_def)

lemma started_job_eq:
  "started_job w jid req cbs cp =
     (create_job w jid req)\<lparr>progress_callbacks := cbs, task := TaskPending, cancel_point := cp\<rparr>"
  by (simp add: started_job_def subscribed create_job_def)

lemma start_job_started:
  "start_job (foldl (\<lambda>j c. subscribe_progress c j) (create_job w jid req) cbs) =
     Some (started_job w jid req cbs None)"
  by (simp add: start_job_def started_job_def subscribed create_job_def)

lemma finished_results_0:
  "finished_results w req 0 =
     map (\<lambda>path. \<lparr>result_file_path = path, result_file_name = path_name w path,
                   result_status = Pending, result_output_path = None,
                   result_error = None\<rparr>) (file_paths req)"
proof -
  let ?g = "\<lambda>path. \<lparr>result_file_path = path, result_file_name = path_name w path,
                   result_status = Pending, result_output_path = None,
                   result_error = None\<rparr>"
  have "map (pending_result w req) [0..<length (file_paths req)] =
        map ?g (map ((!) (file_paths req)) [0..<length (file_paths req)])"
    by (simp add: pending_result_def)
  also have "\<dots> = map ?g (file_paths req)" by (simp only: map_nth)
  finally show ?thesis by (simp add: finished_results_def)
qed

lemma started_job_fields:
  "status (started_job w jid req cbs cp) = Idle"
  "task (started_job w jid req cbs cp) = TaskPending"
  "cancel_event (started_job w jid req cbs cp) = False"
  "progress_callbacks (started_job w jid req cbs cp) = cbs"
  "request (started_job w jid req cbs cp) = req"
  "results (started_job w jid req cbs cp) = finished_results w req 0"
  "completed_files (started_job w jid req cbs cp) = 0"
  "failed_files (started_job w jid req cbs cp) = 0"
  "total_files (started_job w jid req cbs cp) = length (file_paths req)"
  "progress (started_job w jid req cbs cp) = 0"
  "error_message (started_job w jid req cbs cp) = None"
  "delivered (started_job w jid req cbs cp) = []"
  "cancel_point (started_job w jid req cbs cp) = cp"
  by (simp_all add: started_job_eq create_job_def finished_results_0)

lemma await_notify_delivered:
  assumes "await_notify j = Some j'"
  shows "delivered j' = delivered j @ map (\<lambda>c. (c, snapshot j)) (progress_callbacks j)"
    and "snapshot j' = snapshot j"
  using assms
  by (auto simp add: await_notify_def suspend_def notify_progress_def snapshot_def
        batch_job_status.truncate_def split: option.splits nat.splits if_splits)

lemma suspend_delivered: "suspend j = Some j' \<Longrightarrow> delivered j' = delivered j"
  by (auto simp add: suspend_def split: option.splits nat.splits if_splits)

lemma await_notify_settled: "await_notify j = Some j' \<Longrightarrow> settled j'"
  using await_notify_delivered [of j j'] quiet_await_notify [of j j']
  by (auto simp add: settled_def quiet_def)

lemma suspend_terminal:
  "status j \<noteq> Running \<Longrightarrow> status j \<noteq> Idle \<Longrightarrow> suspend j \<noteq> None"
  by (simp add: suspend_def split: option.splits nat.splits)

lemma await_notify_terminal:
  "status j \<noteq> Running \<Longrightarrow> status j \<noteq> Idle \<Longrightarrow> \<exists>j'. await_notify j = Some j'"
  using suspend_terminal [of j] by (auto simp add: await_notify_def)

lemma at_file_start:
  assumes "suspend (started_job w jid req cbs cp) = Some j0"
    and "await_notify (j0\<lparr>status := Running\<rparr>) = Some j1"
  shows "at_file w req cbs 0 j1"
proof -
  let ?s = "started_job w jid req cbs cp"
  have q0: "quiet ?s j0" using assms(1) by (rule quiet_suspend)
  have d0: "delivered j0 = []"
    using suspend_delivered [OF assms(1)] by (simp add: started_job_fields)
  let ?r = "j0\<lparr>status := Running\<rparr>"
  have q1: "quiet ?r j1" using assms(2) by (rule quiet_await_notify)
  have d1: "delivered j1 = map (\<lambda>c. (c, snapshot ?r)) (progress_callbacks ?r)"
    using await_notify_delivered(1) [OF assms(2)] d0 by simp
  have p: "progress j1 = 0" using q0 q1 by (simp add: quiet_def started_job_fields)
  have asc: "ascending j1"
    unfolding ascending_def d1 using p q0
    by (auto simp add: snapshot_fields quiet_def started_job_fields o_def intro: sorted_constant)
  show ?thesis
    using q0 q1 asc d1 p
    by (auto simp add: at_file_def quiet_def started_job_fields snapshot_fields
          succeeded_def failed_def)
qed

lemma ascending_finish:
  assumes "ascending j" and "progress j \<le> p"
  shows "ascending (j\<lparr>status := s, current_file := a, current_step := b, progress := p\<rparr>)"
  using assms by (fastforce simp add: ascending_def)

lemma at_file_progress_le:
  assumes "at_file w req cbs m j"
  shows "progress j \<le> 100"
proof (cases "m = 0")
  case True
  with assms show ?thesis by (simp add: at_file_def)
next
  case False
  let ?n = "length (file_paths req)"
  have mn: "m \<le> ?n" using assms by (simp add: at_file_def)
  have "0 < ?n" using False mn by linarith
  then have "0 < real ?n" by (simp only: of_nat_0_less_iff)
  moreover have "real m \<le> real ?n" using mn by (simp only: of_nat_le_iff)
  ultimately have "real m / real ?n \<le> 1" by (simp add: pos_divide_le_eq)
  then have "real m / real ?n * 100 \<le> 1 * 100" by (intro mult_right_mono) simp_all
  moreover have "progress j = real m / real ?n * 100"
    using assms False by (simp add: at_file_def)
  ultimately show ?thesis by linarith
qed

lemma process_job_cases:
  assumes "process_job w (started_job w jid req cbs cp) = (e, j)"
  shows "(e = TaskFinished \<and> status j = Completed \<and> task j = TaskDone \<and>
          progress_callbacks j = cbs \<and> error_message j = None \<and>
          results j = finished_results w req (length (file_paths req)) \<and>
          completed_files j = succeeded w req (length (file_paths req)) \<and>
          failed_files j = failed w req (length (file_paths req)) \<and>
          progress j = 100 \<and> ascending j \<and> settled j) \<or>
         (e = TaskCancelled \<and> (status j = Idle \<or> status j = Running) \<and> task j = TaskPending \<and>
          progress_callbacks j = cbs \<and>
          (\<exists>m \<le> length (file_paths req).
              results j = finished_results w req m \<and>
              completed_files j = succeeded w req m \<and> failed_files j = failed w req m) \<and>
          ascending j \<and> (\<forall>x \<in> set (delivered j). status (snd x) = Running))"
proof -
  let ?s = "started_job w jid req cbs cp"
  let ?n = "length (file_paths req)"
  have s0: "succeeded w req 0 = 0" "failed w req 0 = 0" by (simp_all add: succeeded_def failed_def)
  have asc_s: "ascending ?s" by (simp add: ascending_def started_job_fields)
  show ?thesis
  proof (cases "suspend ?s")
    case None
    with assms have "e = TaskCancelled" "j = ?s" by (simp_all add: process_job_def)
    then show ?thesis using asc_s s0 by (auto simp add: started_job_fields intro!: exI [of _ 0])
  next
    case (Some j0)
    have q0: "quiet ?s j0" using Some by (rule quiet_suspend)
    let ?r = "j0\<lparr>status := Running\<rparr>"
    have d0: "delivered j0 = []"
      using suspend_delivered [OF Some] by (simp add: started_job_fields)
    show ?thesis
    proof (cases "await_notify ?r")
      case None
      with Some assms have "e = TaskCancelled" "j = ?r" by (simp_all add: process_job_def)
      then show ?thesis
        using q0 d0 s0
        by (auto simp add: quiet_def started_job_fields ascending_def intro!: exI [of _ 0])
    next
      case n1: (Some j1)
      have a1: "at_file w req cbs 0 j1" using at_file_start [OF Some n1] .
      then have rq: "request j1 = req" by (simp add: at_file_def)
      obtain le j2 where pf: "process_files w 0 (file_paths req) j1 = (le, j2)"
        by (cases "process_files w 0 (file_paths req) j1") auto
      from process_files_inv [OF a1 _ pf]
      consider (fin) "le = LoopDone" "at_file w req cbs ?n j2"
        | (cancelled) m' where "le = LoopCancelled" "at_file w req cbs m' j2"
        by auto
      then show ?thesis
      proof cases
        case cancelled
        with Some n1 pf rq assms have "e = TaskCancelled" "j = j2" by (simp_all add: process_job_def)
        then show ?thesis using cancelled(2) by (auto simp add: at_file_def)
      next
        case fin
        let ?c = "j2\<lparr>status := Completed, current_file := None, current_step := None,
                     progress := 100\<rparr>"
        have run: "status j2 = Running" using fin(2) by (simp add: at_file_def)
        obtain j3 where n3: "await_notify ?c = Some j3"
          using await_notify_terminal [of ?c] by auto
        with Some n1 pf rq assms fin(1) run
        have e: "e = TaskFinished" and j: "j = j3\<lparr>task := TaskDone\<rparr>"
          by (simp_all add: process_job_def)
        have q3: "quiet ?c j3" using n3 by (rule quiet_await_notify)
        have ascc: "ascending ?c"
          using fin(2) at_file_progress_le [OF fin(2)]
          by (intro ascending_finish) (simp_all add: at_file_def)
        have asc3: "ascending j3" using ascc q3 by (rule ascending_quiet)
        have set3: "settled j3" using n3 by (rule await_notify_settled)
        have "settled j" using set3 j
          by (simp add: settled_def snapshot_def batch_job_status.truncate_def)
        moreover have "ascending j" using asc3 j by (simp add: ascending_def)
        ultimately show ?thesis
          using e j q3 fin(2) by (simp add: quiet_def at_file_def)
      qed
    qed
  qed
qed

lemma process_job_uncancelled:
  assumes "process_job w (started_job w jid req cbs None) = (e, j)"
  shows "e = TaskFinished"
proof -
  let ?s = "started_job w jid req cbs None"
  have c: "cancel_point ?s = None" by (simp add: started_job_fields)
  then have s: "suspend ?s = Some ?s" by (rule suspend_uncancelled)
  let ?r = "?s\<lparr>status := Running\<rparr>"
  have "cancel_point ?r = None" using c by simp
  then obtain j1 where n1: "await_notify ?r = Some j1" and c1: "cancel_point j1 = None"
    using await_notify_uncancelled by blast
  obtain le j2 where pf: "process_files w 0 (file_paths (request j1)) j1 = (le, j2)"
    by (cases "process_files w 0 (file_paths (request j1)) j1") auto
  have nc: "le \<noteq> LoopCancelled" using process_files_uncancelled [OF c1 pf] .
  show ?thesis
  proof (cases le)
    case LoopCancelled
    with nc show ?thesis by simp
  next
    case (LoopRaised msg)
    obtain j3 where "await_notify (j2\<lparr>status := Failed, error_message := Some msg\<rparr>) = Some j3"
      using await_notify_terminal [of "j2\<lparr>status := Failed, error_message := Some msg\<rparr>"]
      by auto
    with LoopRaised assms s n1 pf show ?thesis by (simp add: process_job_def)
  next
    case LoopDone
    obtain j3 where "await_notify (j2\<lparr>status := Completed, current_file := None,
                       current_step := None, progress := 100\<rparr>) = Some j3"
      using await_notify_terminal [of "j2\<lparr>status := Completed, current_file := None,
                       current_step := None, progress := 100\<rparr>"]
      by auto
    with LoopDone assms s n1 pf show ?thesis by (auto simp add: process_job_def split: if_splits)
  qed
qed

lemma received_sorted:
  assumes "ascending j"
  shows "sorted (map progress (received c j))"
proof -
  have "sorted (map (\<lambda>x. progress (snd x)) (filter (\<lambda>x. fst x = c) (delivered j)))"
    using assms by (simp add: ascending_def sorted_filter)
  then show ?thesis by (simp add: received_def o_def)
qed

lemma received_settled:
  assumes "settled j" and "c \<in> set (progress_callbacks j)"
  shows "received c j \<noteq> [] \<and> last (received c j) = snapshot j"
proof -
  from assms(1) obtain old where
    d: "delivered j = old @ map (\<lambda>callback. (callback, snapshot j)) (progress_callbacks j)"
    by (auto simp add: settled_def)
  let ?new = "map snd (filter (\<lambda>x. fst x = c)
                 (map (\<lambda>callback. (callback, snapshot j)) (progress_callbacks j)))"
  have r: "received c j = map snd (filter (\<lambda>x. fst x = c) old) @ ?new"
    by (simp add: received_def d)
  have ne: "?new \<noteq> []" using assms(2) by (auto simp add: filter_empty_conv)
  have "set ?new \<subseteq> {snapshot j}" by auto
  moreover have "last ?new \<in> set ?new" using ne by (rule last_in_set)
  ultimately have "last ?new = snapshot j" by blast
  then show ?thesis using r ne by simp
qed

lemma cancel_job_stopped:
  assumes "status j = Idle \<or> status j = Running" and "task j = TaskPending"
  shows "cancel_job j =
           (True, notify_progress (j\<lparr>cancel_event := True, task := TaskDone, status := Cancelled\<rparr>))"
  using assms by (auto simp add: cancel_job_def Let_def)

lemma cancel_job_fields:
  assumes "status j = Idle \<or> status j = Running" and "task j = TaskPending"
  shows "fst (cancel_job j) = True"
    and "status (snd (cancel_job j)) = Cancelled"
    and "task (snd (cancel_job j)) = TaskDone"
    and "cancel_event (snd (cancel_job j)) = True"
    and "results (snd (cancel_job j)) = results j"
    and "completed_files (snd (cancel_job j)) = completed_files j"
    and "failed_files (snd (cancel_job j)) = failed_files j"
    and "progress (snd (cancel_job j)) = progress j"
    and "progress_callbacks (snd (cancel_job j)) = progress_callbacks j"
    and "delivered (snd (cancel_job j)) =
           delivered j @ map (\<lambda>c. (c, snapshot (snd (cancel_job j)))) (progress_callbacks j)"
    and "cancel_job (snd (cancel_job j)) = (False, snd (cancel_job j))"
  unfolding cancel_job_stopped [OF assms]
  by (simp_all add: notify_progress_def snapshot_def batch_job_status.truncate_def cancel_job_def)

lemma cancel_job_settled:
  assumes "status j = Idle \<or> status j = Running" and "task j = TaskPending"
  shows "settled (snd (cancel_job j))"
  using cancel_job_fields(9,10) [OF assms] by (auto simp add: settled_def)

lemma cancel_job_ascending:
  assumes "status j = Idle \<or> status j = Running" and "task j = TaskPending" and "ascending j"
  shows "ascending (snd (cancel_job j))"
proof -
  let ?j' = "snd (cancel_job j)"
  have d: "delivered ?j' = delivered j @ map (\<lambda>c. (c, snapshot ?j')) (progress_callbacks j)"
    and p: "progress ?j' = progress j"
    using cancel_job_fields [OF assms(1,2)] by simp_all
  have "sorted (map (\<lambda>x. progress (snd x)) (map (\<lambda>c. (c, snapshot ?j')) (progress_callbacks j)))"
    by (rule sorted_constant [where c = "progress j"]) (auto simp add: snapshot_fields p)
  then show ?thesis
    using assms(3) unfolding ascending_def d p
    by (auto simp add: sorted_append snapshot_fields p)
qed

lemma job_life_cases:
  fixes w :: "('s, 'q) batch_world" and cbs :: "'c list"
  shows "\<exists>e j. process_job w (started_job w jid req cbs cp) = (e, j) \<and>
     ((e = TaskFinished \<and> job_life w jid req cbs cp = j \<and> status j = Completed \<and>
       results j = finished_results w req (length (file_paths req)) \<and>
       completed_files j = succeeded w req (length (file_paths req)) \<and> failed_files j = failed w req (length (file_paths req))) \<or>
      (e = TaskCancelled \<and> job_life w jid req cbs cp = snd (cancel_job j) \<and>
       status (snd (cancel_job j)) = Cancelled)) \<and>
     progress_callbacks (job_life w jid req cbs cp) = cbs \<and>
     ascending (job_life w jid req cbs cp) \<and> settled (job_life w jid req cbs cp)"
proof -
  obtain e j where pj: "process_job w (started_job w jid req cbs cp :: ('q, 'c) batch_job) = (e, j)"
    by (cases "process_job w (started_job w jid req cbs cp :: ('q, 'c) batch_job)") auto
  from process_job_cases [OF pj]
  consider (fin) "e = TaskFinished" "status j = Completed" "progress_callbacks j = cbs"
      "results j = finished_results w req (length (file_paths req))" "completed_files j = succeeded w req (length (file_paths req))"
      "failed_files j = failed w req (length (file_paths req))" "ascending j" "settled j"
    | (stopped) "e = TaskCancelled" "status j = Idle \<or> status j = Running" "task j = TaskPending"
      "progress_callbacks j = cbs" "ascending j"
    by blast
  then show ?thesis
  proof cases
    case fin
    then show ?thesis using pj by (simp add: job_life_def)
  next
    case stopped
    have "job_life w jid req cbs cp = snd (cancel_job j)"
      using pj stopped(1) by (simp add: job_life_def)
    then show ?thesis
      using pj stopped cancel_job_fields(2,9) [OF stopped(2,3)]
        cancel_job_settled [OF stopped(2,3)] cancel_job_ascending [OF stopped(2,3,5)]
      by simp
  qed
qed

lemma succeeded_plus_failed: "succeeded w req m + failed w req m = m"
  using sum_length_filter_compl [of "\<lambda>i. isl (file_outcome w req i)" "[0..<m]"]
  by (simp add: succeeded_def failed_def add.commute)

lemma job_life_completed:
  fixes w :: "('s, 'q) batch_world" and cbs :: "'c list"
  shows "status (job_life w jid req cbs None) = Completed"
    and "results (job_life w jid req cbs None) = finished_results w req (length (file_paths req))"
    and "completed_files (job_life w jid req cbs None) = succeeded w req (length (file_paths req))"
    and "failed_files (job_life w jid req cbs None) = failed w req (length (file_paths req))"
proof -
  let ?n = "length (file_paths req)"
  from job_life_cases [of w jid req cbs None]
  obtain e j where pj: "process_job w (started_job w jid req cbs None :: ('q, 'c) batch_job) = (e, j)"
    and c: "(e = TaskFinished \<and> job_life w jid req cbs None = j \<and> status j = Completed \<and>
       results j = finished_results w req ?n \<and>
       completed_files j = succeeded w req ?n \<and> failed_files j = failed w req ?n) \<or>
      (e = TaskCancelled \<and> job_life w jid req cbs None = snd (cancel_job j) \<and>
       status (snd (cancel_job j)) = Cancelled)"
    by blast
  have "e = TaskFinished" using process_job_uncancelled [OF pj] .
  with c show "status (job_life w jid req cbs None) = Completed"
    and "results (job_life w jid req cbs None) = finished_results w req ?n"
    and "completed_files (job_life w jid req cbs None) = succeeded w req ?n"
    and "failed_files (job_life w jid req cbs None) = failed w req ?n"
    by simp_all
qed

lemma finished_results_nth:
  assumes "i < length (file_paths req)"
  shows "finished_results w req (length (file_paths req)) ! i = final_result w req i"
  using assms by (simp add: finished_results_def)

lemma example_outcomes:
  "file_outcome (example_world msg) example_request 0 = Inr ''out/a.fif''"
  "file_outcome (example_world msg) example_request (Suc 0) = Inl msg"
  "file_outcome (example_world msg) example_request 2 = Inr ''out/c.fif''"
  by (simp_all add: file_outcome_def example_world_def example_request_def)

lemma upt_3: "[0..<3] = [0, 1, 2]"
  by (simp add: upt_rec)

lemma example_counts:
  "succeeded (example_world msg) example_request 3 = 2"
  "failed (example_world msg) example_request 3 = 1"
  by (simp_all add: succeeded_def failed_def upt_3 example_outcomes)


lemmas batch_eval =
  process_job_def started_job_eq create_job_def example_world_def example_request_def
  suspend_def await_notify_def notify_progress_def process_file_def record_result_def
  snapshot_def batch_job_status.truncate_def cancel_job_def job_life_def received_def

section \<open>Batch jobs: the claims\<close>

text \<open>
  Claim C6, as amended.  A job that is created, started and never cancelled ends with the
  status \<open>completed\<close>, whatever happens to its files.  Each file has its own result: a
  file whose processing raised has the status \<open>failed\<close> and, as its error, the text of
  the exception (which is empty when the exception has no message); every other file has
  the status \<open>success\<close> and its output path.  The two counters count these results, and
  for three files of which exactly one fails they are 2 and 1.
\<close>

theorem batch_failure_is_isolated:
  fixes w :: "('s, 'q) batch_world" and cbs :: "'c list"
  shows "status (job_life w jid req cbs None) = Completed \<and>
         results (job_life w jid req cbs None) =
           map (final_result w req) [0..<length (file_paths req)] \<and>
         completed_files (job_life w jid req cbs None) = succeeded w req (length (file_paths req)) \<and>
         failed_files (job_life w jid req cbs None) = failed w req (length (file_paths req)) \<and>
         completed_files (job_life w jid req cbs None) + failed_files (job_life w jid req cbs None) =
           length (file_paths req) \<and>
         (\<forall>i < length (file_paths req). \<forall>msg. file_outcome w req i = Inl msg \<longrightarrow>
            result_status (results (job_life w jid req cbs None) ! i) = FailedFile \<and>
            result_error (results (job_life w jid req cbs None) ! i) = Some msg) \<and>
         (\<forall>i < length (file_paths req). \<forall>output_path. file_outcome w req i = Inr output_path \<longrightarrow>
            result_status (results (job_life w jid req cbs None) ! i) = Success \<and>
            result_output_path (results (job_life w jid req cbs None) ! i) = Some output_path \<and>
            result_error (results (job_life w jid req cbs None) ! i) = None) \<and>
         (length (file_paths req) = 3 \<and> failed w req 3 = 1 \<longrightarrow>
            completed_files (job_life w jid req cbs None) = 2 \<and>
            failed_files (job_life w jid req cbs None) = 1)"
proof -
  let ?jf = "job_life w jid req cbs None :: ('q, 'c) batch_job"
  let ?n = "length (file_paths req)"
  note c = job_life_completed [of w jid req cbs]
  have r: "results ?jf = map (final_result w req) [0..<?n]"
    using c(2) by (simp add: finished_results_def)
  have sum: "completed_files ?jf + failed_files ?jf = ?n"
    using c(3,4) succeeded_plus_failed [of w req ?n] by simp
  have f: "\<forall>i < ?n. \<forall>msg. file_outcome w req i = Inl msg \<longrightarrow>
            result_status (results ?jf ! i) = FailedFile \<and>
            result_error (results ?jf ! i) = Some msg"
    using r by (simp add: final_result_def)
  have s: "\<forall>i < ?n. \<forall>output_path. file_outcome w req i = Inr output_path \<longrightarrow>
            result_status (results ?jf ! i) = Success \<and>
            result_output_path (results ?jf ! i) = Some output_path \<and>
            result_error (results ?jf ! i) = None"
    using r by (simp add: final_result_def)
  have three: "?n = 3 \<and> failed w req 3 = 1 \<longrightarrow> completed_files ?jf = 2 \<and> failed_files ?jf = 1"
    using c(4) sum by auto
  show ?thesis using c(1) r c(3) c(4) sum f s three by blast
qed

theorem batch_failure_is_isolated_witness:
  "length (file_paths example_request) = 3 \<and>
   failed (example_world ''file not found'') example_request 3 = 1 \<and>
   file_outcome (example_world ''file not found'') example_request 1 = Inl ''file not found'' \<and>
   status (job_life (example_world ''file not found'') ''job1'' example_request [0::nat] None)
     = Completed \<and>
   completed_files (job_life (example_world ''file not found'') ''job1'' example_request [0::nat] None)
     = 2 \<and>
   failed_files (job_life (example_world ''file not found'') ''job1'' example_request [0::nat] None)
     = 1 \<and>
   map result_status
     (results (job_life (example_world ''file not found'') ''job1'' example_request [0::nat] None))
     = [Success, FailedFile, Success] \<and>
   result_error
     (results (job_life (example_world ''file not found'') ''job1'' example_request [0::nat] None) ! 1)
     = Some ''file not found''"
proof -
  have n: "length (file_paths example_request) = 3" by (simp add: example_request_def)
  have h: "length (file_paths example_request) = 3 \<and>
           failed (example_world ''file not found'') example_request 3 = 1"
    using n by (simp add: example_counts)
  have o: "file_outcome (example_world ''file not found'') example_request 1 = Inl ''file not found''"
    using example_outcomes(2) [of "''file not found''"] by simp
  have i: "(1::nat) < length (file_paths example_request)" using n by simp
  show ?thesis
    using h o i
      batch_failure_is_isolated [of "example_world ''file not found''" "''job1''" example_request
        "[0::nat]"]
    by (simp add: upt_3 final_result_def example_outcomes)
qed

text \<open>
  Claim C6 as stated fails where it asks for a non-empty error: the second of three files
  fails with an exception that has no message, the job ends \<open>completed\<close> with the
  counters 2 and 1, and the error of the failed file is the empty text.
\<close>

theorem failed_file_error_may_be_empty:
  "length (file_paths example_request) = 3 \<and>
   file_outcome (example_world []) example_request 1 = Inl [] \<and>
   status (job_life (example_world []) ''job1'' example_request [0::nat] None) = Completed \<and>
   completed_files (job_life (example_world []) ''job1'' example_request [0::nat] None) = 2 \<and>
   failed_files (job_life (example_world []) ''job1'' example_request [0::nat] None) = 1 \<and>
   result_status (results (job_life (example_world []) ''job1'' example_request [0::nat] None) ! 1)
     = FailedFile \<and>
   result_error (results (job_life (example_world []) ''job1'' example_request [0::nat] None) ! 1)
     = Some []"
proof -
  have n: "length (file_paths example_request) = 3" by (simp add: example_request_def)
  have o: "file_outcome (example_world []) example_request 1 = Inl []"
    using example_outcomes(2) [of "[]"] by simp
  show ?thesis
    using n o job_life_completed [of "example_world []" "''job1''" example_request "[0::nat]"]
    by (simp add: example_counts finished_results_def upt_3 final_result_def example_outcomes)
qed







text \<open>
  Claim C8, as amended.  Over the life of a job that is started before any \<open>cancel_job\<close>
  (created with its subscribers, started once, run to its end or cancelled at any
  suspension point), the progress values given to a subscribed callback ascend, also from
  any later point on; the callback has been called, and the last status given to it is the
  final status of the job, which is terminal.
\<close>

theorem progress_is_monotone:
  fixes w :: "('s, 'q) batch_world" and cbs :: "'c list"
  shows "\<forall>c \<in> set cbs.
           sorted (map progress (received c (job_life w jid req cbs cp))) \<and>
           (\<forall>d. sorted (map progress (drop d (received c (job_life w jid req cbs cp))))) \<and>
           received c (job_life w jid req cbs cp) \<noteq> [] \<and>
           last (received c (job_life w jid req cbs cp)) = snapshot (job_life w jid req cbs cp) \<and>
           status (last (received c (job_life w jid req cbs cp))) =
             status (job_life w jid req cbs cp) \<and>
           (status (job_life w jid req cbs cp) = Completed \<or>
            status (job_life w jid req cbs cp) = Failed \<or>
            status (job_life w jid req cbs cp) = Cancelled)"
proof
  fix c assume c: "c \<in> set cbs"
  let ?jf = "job_life w jid req cbs cp :: ('q, 'c) batch_job"
  from job_life_cases [of w jid req cbs cp]
  have cb: "progress_callbacks ?jf = cbs" and asc: "ascending ?jf" and se: "settled ?jf"
    and st: "status ?jf = Completed \<or> status ?jf = Cancelled"
    by auto
  have so: "sorted (map progress (received c ?jf))" using asc by (rule received_sorted)
  have dr: "\<forall>d. sorted (map progress (drop d (received c ?jf)))"
    using so by (simp add: drop_map [symmetric])
  have la: "received c ?jf \<noteq> [] \<and> last (received c ?jf) = snapshot ?jf"
    using received_settled [OF se] c cb by simp
  show "sorted (map progress (received c ?jf)) \<and>
        (\<forall>d. sorted (map progress (drop d (received c ?jf)))) \<and>
        received c ?jf \<noteq> [] \<and> last (received c ?jf) = snapshot ?jf \<and>
        status (last (received c ?jf)) = status ?jf \<and>
        (status ?jf = Completed \<or> status ?jf = Failed \<or> status ?jf = Cancelled)"
    using so dr la st by (auto simp add: snapshot_fields)
qed

theorem progress_is_monotone_witness:
  "(0::nat) \<in> set [0] \<and>
   map progress (received 0 (job_life (example_world ''x'') ''job1'' example_request [0::nat] None))
     = [0, 0, 0, 0, 100 / 3, 100 / 3, 200 / 3, 200 / 3, 200 / 3, 200 / 3, 100, 100] \<and>
   sorted (map progress
     (received 0 (job_life (example_world ''x'') ''job1'' example_request [0::nat] None))) \<and>
   status (last (received 0 (job_life (example_world ''x'') ''job1'' example_request [0::nat] None)))
     = Completed"
proof -
  have h: "(0::nat) \<in> set [0]" by simp
  have p: "map progress
      (received 0 (job_life (example_world ''x'') ''job1'' example_request [0::nat] None))
     = [0, 0, 0, 0, 100 / 3, 100 / 3, 200 / 3, 200 / 3, 200 / 3, 200 / 3, 100, 100]"
    by (simp add: batch_eval)
  have s: "status (job_life (example_world ''x'') ''job1'' example_request [0::nat] None)
             = Completed"
    by (simp add: batch_eval)
  show ?thesis
    using h p s
      progress_is_monotone [of "[0::nat]" "example_world ''x''" "''job1''" example_request None]
    by (simp add: snapshot_fields)
qed

text \<open>
  Claim C8 as stated fails for a job that is cancelled while idle and started afterwards:
  \<open>cancel_job\<close> returns \<open>True\<close> and publishes \<open>cancelled\<close>; \<open>start_job\<close> accepts the
  job, the task publishes \<open>running\<close>, finds the cancellation event set at the first file,
  sets the status \<open>cancelled\<close> and ends without publishing it.  The last status given to
  the callback is \<open>running\<close>, the final status of the job is \<open>cancelled\<close>.
\<close>

theorem cancelled_before_start_is_not_published:
  "fst (cancel_job (subscribe_progress (0::nat)
          (create_job (example_world ''x'') ''job1'' example_request))) = True \<and>
   status (cancelled_then_started (example_world ''x'') ''job1'' example_request [0::nat])
     = Cancelled \<and>
   map status (received 0
     (cancelled_then_started (example_world ''x'') ''job1'' example_request [0::nat]))
     = [Cancelled, Running] \<and>
   status (last (received 0
     (cancelled_then_started (example_world ''x'') ''job1'' example_request [0::nat])))
     \<noteq> status (cancelled_then_started (example_world ''x'') ''job1'' example_request [0::nat])"
  by (simp add: cancelled_then_started_def subscribe_progress_def start_job_def Let_def
        process_job_def create_job_def example_world_def example_request_def
        suspend_def await_notify_def notify_progress_def
        snapshot_def batch_job_status.truncate_def cancel_job_def received_def)

section \<open>Time-frequency jobs: the claim\<close>

text \<open>
  Without a \<open>cancel_job\<close> call, \<open>run_morlet_job\<close> ends a new job in one of two ways:
  \<open>completed\<close> with the result, or \<open>error\<close> with the text of the exception.
\<close>

lemma undisturbed_read: "undisturbed th \<Longrightarrow> read_cancelled th = (False, th)"
  by (simp add: undisturbed_def read_cancelled_def interleave_def)

lemma undisturbed_progress:
  "undisturbed th \<Longrightarrow> undisturbed (update_job new_status (Some p) None None th)"
  by (cases new_status)
     (simp_all add: undisturbed_def update_job_def interleave_def tfr_update_def)

lemma fail_ends:
  assumes "undisturbed th"
  shows "tfr_status (th_job (fail msg th)) = TfrError"
    and "tfr_error (th_job (fail msg th)) = Some msg"
    and "tfr_result (th_job (fail msg th)) = None"
    and "th_cancel_in (fail msg th) = None"
    and "th_cancel_returned (fail msg th) = None"
  using assms
  by (simp_all add: undisturbed_def fail_def update_job_def interleave_def tfr_update_def)

lemma complete_ends:
  assumes "undisturbed th"
  shows "tfr_status (th_job (update_job (Some TfrCompleted) (Some 1) None (Some res) th)) = TfrCompleted"
    and "tfr_error (th_job (update_job (Some TfrCompleted) (Some 1) None (Some res) th)) = None"
    and "tfr_result (th_job (update_job (Some TfrCompleted) (Some 1) None (Some res) th)) = Some res"
    and "th_cancel_in (update_job (Some TfrCompleted) (Some 1) None (Some res) th) = None"
    and "th_cancel_returned (update_job (Some TfrCompleted) (Some 1) None (Some res) th) = None"
  using assms
  by (simp_all add: undisturbed_def update_job_def interleave_def tfr_update_def)

lemma batches_undisturbed:
  "undisturbed th \<Longrightarrow> batches r batch_size starts total_epochs th = (ex, th') \<Longrightarrow>
   ex \<noteq> Returned \<and> undisturbed th'"
proof (induction starts arbitrary: total_epochs th)
  case Nil
  then show ?case by auto
next
  case (Cons start_idx later)
  show ?case
  proof (cases "batch_raises r start_idx")
    case (Some msg)
    with Cons.prems show ?thesis by (auto simp add: undisturbed_read)
  next
    case None
    let ?t = "total_epochs + (min (start_idx + batch_size) (n_epochs r) - start_idx)"
    let ?th = "update_job None (Some (0.15 + 0.6 * (real ?t / real (max 1 (n_epochs r)))))
                 None None th"
    have u: "undisturbed ?th" using Cons.prems(1) by (rule undisturbed_progress)
    have "batches r batch_size later ?t ?th = (ex, th')"
      using Cons.prems None by (simp add: undisturbed_read Let_def)
    from Cons.IH [OF u this] show ?thesis .
  qed
qed

lemma channel_images_undisturbed:
  "undisturbed th \<Longrightarrow> channel_images r indices th = (ex, th') \<Longrightarrow>
   ex \<noteq> Returned \<and> undisturbed th'"
proof (induction indices arbitrary: th)
  case Nil
  then show ?case by auto
next
  case (Cons ci later)
  show ?case
  proof (cases "channel_raises r ci")
    case (Some msg)
    with Cons.prems show ?thesis by (auto simp add: undisturbed_read)
  next
    case None
    let ?th = "update_job None
                 (Some (0.85 + 0.13 * (real (ci + 1) / real (max 1 (picked_channels r)))))
                 None None th"
    have u: "undisturbed ?th" using Cons.prems(1) by (rule undisturbed_progress)
    have "channel_images r later ?th = (ex, th')"
      using Cons.prems None by (simp add: undisturbed_read)
    from Cons.IH [OF u this] show ?thesis .
  qed
qed

lemma fail_ended_well: "undisturbed th \<Longrightarrow> ended_well (fail msg th)"
  using fail_ends [of th msg] by (simp add: ended_well_def)

lemma complete_ended_well:
  "undisturbed th \<Longrightarrow> ended_well (update_job (Some TfrCompleted) (Some 1) None (Some res) th)"
  using complete_ends [of th res] by (simp add: ended_well_def)

lemma images_end:
  assumes "undisturbed th5"
  shows "ended_well
           (case channel_images r indices th5 of
              (Returned, th6) \<Rightarrow> th6
            | (Raising msg, th6) \<Rightarrow> fail msg th6
            | (Finished, th6) \<Rightarrow>
                update_job (Some TfrCompleted) (Some 1) None (Some res) th6)"
proof -
  obtain ex th6 where c: "channel_images r indices th5 = (ex, th6)"
    by (cases "channel_images r indices th5") auto
  from channel_images_undisturbed [OF assms c]
  have "ex \<noteq> Returned" and "undisturbed th6" by simp_all
  then show ?thesis
    unfolding c by (cases ex) (simp_all add: fail_ended_well complete_ended_well)
qed

lemma after_batches_end:
  assumes "undisturbed th3"
  shows "ended_well
           (let th4 = update_job None (Some p) None None th3 in
            (case average_raises r of
               Some msg \<Rightarrow> fail msg th4
             | None \<Rightarrow>
                 if image_mode r then
                   let th5 = update_job None (Some q) None None th4 in
                   (case overview_raises r of
                      Some msg \<Rightarrow> fail msg th5
                    | None \<Rightarrow>
                        (case channel_images r [0..<picked_channels r] th5 of
                           (Returned, th6) \<Rightarrow> th6
                         | (Raising msg, th6) \<Rightarrow> fail msg th6
                         | (Finished, th6) \<Rightarrow>
                             update_job (Some TfrCompleted) (Some 1) None
                               (Some (image_result r)) th6))
                 else
                   update_job (Some TfrCompleted) (Some 1) None
                     (Some (data_result r)) th4))"
proof -
  let ?th4 = "update_job None (Some p) None None th3"
  let ?th5 = "update_job None (Some q) None None ?th4"
  have u4: "undisturbed ?th4" using assms by (rule undisturbed_progress)
  have u5: "undisturbed ?th5" using u4 by (rule undisturbed_progress)
  show ?thesis
  proof (cases "average_raises r")
    case (Some msg)
    then show ?thesis using fail_ended_well [OF u4] by (simp add: Let_def)
  next
    case None
    show ?thesis
    proof (cases "image_mode r")
      case False
      with None show ?thesis using complete_ended_well [OF u4] by (simp add: Let_def)
    next
      case True
      show ?thesis
      proof (cases "overview_raises r")
        case (Some msg)
        with None True show ?thesis using fail_ended_well [OF u5] by (simp add: Let_def)
      next
        case on: None
        with None True show ?thesis
          using images_end [OF u5]
          by (simp add: Let_def)
      qed
    qed
  qed
qed

lemma batches_end:
  assumes "undisturbed th2" and "\<And>th3. undisturbed th3 \<Longrightarrow> ended_well (k th3)"
  shows "ended_well
           (case batches r batch_size starts total_epochs th2 of
              (Returned, th3) \<Rightarrow> th3
            | (Raising msg, th3) \<Rightarrow> fail msg th3
            | (Finished, th3) \<Rightarrow> k th3)"
proof -
  obtain ex th3 where b: "batches r batch_size starts total_epochs th2 = (ex, th3)"
    by (cases "batches r batch_size starts total_epochs th2") auto
  from batches_undisturbed [OF assms(1) b]
  have "ex \<noteq> Returned" and "undisturbed th3" by simp_all
  then show ?thesis
    unfolding b using assms(2) by (cases ex) (simp_all add: fail_ended_well)
qed

lemma run_morlet_job_undisturbed:
  assumes "undisturbed th"
  shows "ended_well (run_morlet_job r th)"
proof -
  define th1 where "th1 = update_job (Some TfrRunning) (Some 0.05) None None th"
  define th2 where "th2 = update_job None (Some 0.15) None None th1"
  define bs where "bs = (if n_epochs r \<ge> 10 then 5 else n_epochs r)"
  define k where "k = (\<lambda>th3.
            let th4 = update_job None (Some 0.8) None None th3 in
            (case average_raises r of
               Some msg \<Rightarrow> fail msg th4
             | None \<Rightarrow>
                 if image_mode r then
                   let th5 = update_job None (Some 0.85) None None th4 in
                   (case overview_raises r of
                      Some msg \<Rightarrow> fail msg th5
                    | None \<Rightarrow>
                        (case channel_images r [0..<picked_channels r] th5 of
                           (Returned, th6) \<Rightarrow> th6
                         | (Raising msg, th6) \<Rightarrow> fail msg th6
                         | (Finished, th6) \<Rightarrow>
                             update_job (Some TfrCompleted) (Some 1) None
                               (Some (image_result r)) th6))
                 else
                   update_job (Some TfrCompleted) (Some 1) None
                     (Some (data_result r)) th4))"
  have eq: "run_morlet_job r th =
     (case validate r of
        Some msg \<Rightarrow> fail msg th1
      | None \<Rightarrow>
          if bs = 0 then fail range_step_message th2
          else
            (case batches r bs (map (\<lambda>k. k * bs) [0..<(n_epochs r + bs - 1) div bs]) 0 th2 of
               (Returned, th3) \<Rightarrow> th3
             | (Raising msg, th3) \<Rightarrow> fail msg th3
             | (Finished, th3) \<Rightarrow> k th3))"
    unfolding run_morlet_job_def k_def bs_def th1_def th2_def
    by (simp only: undisturbed_read [OF assms] prod.case bool.case Let_def)
  have u1: "undisturbed th1" unfolding th1_def using assms by (rule undisturbed_progress)
  have u2: "undisturbed th2" unfolding th2_def using u1 by (rule undisturbed_progress)
  have kw: "\<And>th3. undisturbed th3 \<Longrightarrow> ended_well (k th3)"
    unfolding k_def by (rule after_batches_end)
  show ?thesis
  proof (cases "validate r")
    case (Some msg)
    then show ?thesis unfolding eq using fail_ended_well [OF u1] by simp
  next
    case None
    show ?thesis
    proof (cases "bs = 0")
      case True
      with None show ?thesis unfolding eq using fail_ended_well [OF u2] by simp
    next
      case False
      with None show ?thesis
        unfolding eq
        using batches_end [OF u2 kw]
        by simp
    qed
  qed
qed

lemma tfr_life_uncancelled:
  "ended_well (tfr_life jid r None)"
proof -
  have "undisturbed \<lparr>th_job = tfr_create_job jid, th_cancel_in = None, th_cancel_returned = None\<rparr>"
    by (simp add: undisturbed_def tfr_create_job_def)
  from run_morlet_job_undisturbed [OF this, of r] show ?thesis
    by (simp add: tfr_life_def Let_def ended_well_def)
qed


lemmas tfr_eval =
  tfr_life_def run_morlet_job_def example_tfr_run_def tfr_create_job_def read_cancelled_def
  interleave_def update_job_def tfr_update_def tfr_cancel_job_def validate_def fail_def Let_def

text \<open>
  Claim C9 at its failing input.  A job over three epochs (one batch) in data mode is
  cancelled while that batch is computed, after the only check of \<open>job.cancelled\<close>:
  \<open>cancel_job\<close> finds the job running and returns \<open>True\<close>, yet the worker goes on and
  the job ends \<open>completed\<close> with its result, the cancellation message still attached.
\<close>

theorem late_cancel_ends_completed:
  "th_cancel_returned (tfr_life ''job1'' example_tfr_run (Some 4)) = Some True \<and>
   tfr_cancelled (th_job (tfr_life ''job1'' example_tfr_run (Some 4))) = True \<and>
   tfr_status (th_job (tfr_life ''job1'' example_tfr_run (Some 4))) = TfrCompleted \<and>
   tfr_result (th_job (tfr_life ''job1'' example_tfr_run (Some 4))) = Some ''data'' \<and>
   tfr_error (th_job (tfr_life ''job1'' example_tfr_run (Some 4))) = Some cancel_message"
  by (simp add: tfr_eval upt_rec)

text \<open>One access earlier the same call ends the job as the claim says.\<close>

lemma early_cancel_ends_in_error:
  "th_cancel_returned (tfr_life ''job1'' example_tfr_run (Some 3)) = Some True \<and>
   tfr_status (th_job (tfr_life ''job1'' example_tfr_run (Some 3))) = TfrError \<and>
   tfr_result (th_job (tfr_life ''job1'' example_tfr_run (Some 3))) = None \<and>
   tfr_error (th_job (tfr_life ''job1'' example_tfr_run (Some 3))) = Some cancel_message"
  by (simp add: tfr_eval upt_rec)

end
